theory Spec2Isabelle
  imports Main "HOL-Library.Word"
begin

unbundle bit_operations_syntax

section \<open>Faults\<close>

text \<open>
  The allocator of \<^verbatim>\<open>multi_pool_alloc.hpp\<close> has no error returns of its own.  What can go
  wrong is undefined behaviour of C++ (a bit scan of zero, an array access out of range, a
  write through a null pointer, a difference of pointers that are not elements of one
  array) and a failed \<^verbatim>\<open>assert\<close> in a build with assertions.  Each is a value here, so
  that every such path of the source is a branch of the model.
\<close>

datatype fault =
    Ctz_of_zero
  | Out_of_bounds
  | Null_dereference
  | Bad_pointer_difference
  | Assertion_failed

section \<open>Bit primitives (\<^verbatim>\<open>namespace mpa::impl\<close>)\<close>

text \<open>
  \<^verbatim>\<open>ctz\<close>: the portable version of the source is the loop
  \<^verbatim>\<open>bits = 0; while (!((T(1) << bits) & n)) bits++; return bits;\<close>
  and the source says of all versions that they must not be used with \<^verbatim>\<open>n = 0\<close>.
  The loop is modelled with its counter; running past the width of the word (which only
  happens for \<^verbatim>\<open>n = 0\<close>) is the undefined case and gives \<open>None\<close>.
\<close>

function ctz_loop :: "'w::len word \<Rightarrow> nat \<Rightarrow> nat option" where
  "ctz_loop n bits =
     (if LENGTH('w) \<le> bits then None
      else if push_bit bits 1 AND n = 0 then ctz_loop n (bits + 1)
      else Some bits)"
  by pat_completeness auto
termination
  by (relation "measure (\<lambda>(n :: 'w::len word, bits). LENGTH('w) - bits)") auto

declare ctz_loop.simps [simp del]

definition ctz :: "'w::len word \<Rightarrow> nat option" where
  "ctz n = ctz_loop n 0"

text \<open>\<^verbatim>\<open>set_bit\<close>: \<^verbatim>\<open>n |= T(1) << bit\<close>; \<^verbatim>\<open>clear_bit\<close>: \<^verbatim>\<open>n &= ~(T(1) << bit)\<close>.\<close>

definition set_bit_w :: "'w::len word \<Rightarrow> nat \<Rightarrow> 'w word" where
  "set_bit_w n b = n OR push_bit b 1"

definition clear_bit_w :: "'w::len word \<Rightarrow> nat \<Rightarrow> 'w word" where
  "clear_bit_w n b = n AND NOT (push_bit b 1)"

section \<open>The pool (\<^verbatim>\<open>pool_t<T, WordType>\<close>)\<close>

text \<open>
  The two bitmap tiers of a pool.  The type parameter is the word type, so a pool over
  \<^verbatim>\<open>u64_t\<close> is a \<open>64 word pool_t\<close>.  The array \<^verbatim>\<open>unallocated_slots[word_bits]\<close> is a list;
  that it has \<^verbatim>\<open>word_bits\<close> entries is \<open>pool_wf\<close>.  The member \<^verbatim>\<open>data\<close> is raw storage that
  the allocator never reads or writes, so only its address and the element size
  \<^verbatim>\<open>sizeof(T)\<close> appear, as arguments of the operations.
\<close>

record 'a pool_t =
  unused_words :: "'a"
  unallocated_slots :: "'a list"

definition pool_wf :: "('w::len word) pool_t \<Rightarrow> bool" where
  "pool_wf p = (length (unallocated_slots p) = LENGTH('w))"

text \<open>The address of \<^verbatim>\<open>data[i]\<close> for an array at address \<open>data\<close> of elements of \<open>tsz\<close> bytes.\<close>

definition elem_addr :: "nat \<Rightarrow> nat \<Rightarrow> nat \<Rightarrow> nat" where
  "elem_addr tsz data i = data + i * tsz"

definition pool_init :: "('w::len word) pool_t" where
  "pool_init = \<lparr>unused_words = NOT 0, unallocated_slots = replicate LENGTH('w) (NOT 0)\<rparr>"

definition pool_allocate ::
  "nat \<Rightarrow> nat \<Rightarrow> ('w::len word) pool_t \<Rightarrow> fault + (nat \<times> ('w word) pool_t)" where
  "pool_allocate tsz data p =
     (case ctz (unused_words p) of
        None \<Rightarrow> Inl Ctz_of_zero
      | Some bucket \<Rightarrow>
         (case ctz (unallocated_slots p ! bucket) of
            None \<Rightarrow> Inl Ctz_of_zero
          | Some slot \<Rightarrow>
             (let w = clear_bit_w (unallocated_slots p ! bucket) slot;
                  slots = (unallocated_slots p)[bucket := w];
                  words = (if w = 0 then clear_bit_w (unused_words p) bucket
                           else unused_words p)
              in Inr (elem_addr tsz data (bucket * LENGTH('w) + slot),
                      \<lparr>unused_words = words, unallocated_slots = slots\<rparr>))))"

text \<open>
  \<^verbatim>\<open>deallocate(T* ptr)\<close>: \<^verbatim>\<open>index = uint32_t(ptr - data)\<close> is a difference of element
  pointers, defined only when the byte distance is a multiple of \<^verbatim>\<open>sizeof(T)\<close>, and the
  conversion to \<^verbatim>\<open>uint32_t\<close> reduces it modulo \<open>2 ^ 32\<close>.  A bucket outside the array is an
  access out of range.  In the test \<^verbatim>\<open>unallocated_slots[bucket] == ~WordType(0)\<close> both sides
  undergo integer promotion: for a word type narrower than \<^verbatim>\<open>int\<close> (\<^verbatim>\<open>uint8_t\<close>, \<^verbatim>\<open>uint16_t\<close>)
  the right side is the \<^verbatim>\<open>int\<close> value -1 and the left side is not negative, so the test is
  never true; for \<^verbatim>\<open>uint32_t\<close> and \<^verbatim>\<open>uint64_t\<close> it compares the word with all-ones.
\<close>

definition pool_deallocate ::
  "nat \<Rightarrow> nat \<Rightarrow> nat \<Rightarrow> ('w::len word) pool_t \<Rightarrow> fault + ('w word) pool_t" where
  "pool_deallocate tsz data ptr p =
     (let diff = int ptr - int data in
      if \<not> int tsz dvd diff then Inl Bad_pointer_difference
      else
        (let index = nat ((diff div int tsz) mod 2 ^ 32);
             bucket = index div LENGTH('w);
             slot = index mod LENGTH('w)
         in if LENGTH('w) \<le> bucket then Inl Out_of_bounds
            else
              (let w = set_bit_w (unallocated_slots p ! bucket) slot;
                   slots = (unallocated_slots p)[bucket := w];
                   words = (if 32 \<le> LENGTH('w) \<and> w = NOT 0
                            then set_bit_w (unused_words p) bucket
                            else unused_words p)
               in Inr \<lparr>unused_words = words, unallocated_slots = slots\<rparr>)))"

definition pool_full :: "('w::len word) pool_t \<Rightarrow> bool" where
  "pool_full p = (unused_words p = 0)"

section \<open>Driving a pool\<close>

text \<open>
  \<open>pool_allocate_n\<close> performs \<open>n\<close> consecutive calls of \<^verbatim>\<open>allocate()\<close> and collects the
  returned addresses; it stops at the first fault.  \<open>pool_after m\<close> is the closed form of
  the bitmaps of a pool after \<open>m\<close> allocations from \<^verbatim>\<open>init()\<close>: the first \<open>m div b\<close>
  words are exhausted, the next one has its low \<open>m mod b\<close> bits cleared.  That the code
  reaches this state is \<open>pool_allocate_n_after\<close>.
\<close>

definition pool_after :: "nat \<Rightarrow> ('w::len word) pool_t" where
  "pool_after m =
     \<lparr>unused_words = NOT (mask (m div LENGTH('w))),
      unallocated_slots = map (\<lambda>k. NOT (mask (m - k * LENGTH('w)))) [0..<LENGTH('w)]\<rparr>"

fun pool_allocate_n ::
  "nat \<Rightarrow> nat \<Rightarrow> nat \<Rightarrow> ('w::len word) pool_t \<Rightarrow> fault + (nat list \<times> ('w word) pool_t)" where
  "pool_allocate_n tsz data 0 p = Inr ([], p)"
| "pool_allocate_n tsz data (Suc n) p =
     (case pool_allocate tsz data p of
        Inl f \<Rightarrow> Inl f
      | Inr (a, p') \<Rightarrow>
         (case pool_allocate_n tsz data n p' of
            Inl f \<Rightarrow> Inl f
          | Inr (as, p'') \<Rightarrow> Inr (a # as, p'')))"

section \<open>The multi-pool (\<^verbatim>\<open>multi_pool_t<T>\<close>)\<close>

text \<open>
  \<^verbatim>\<open>multi_pool_t<T>\<close> uses \<^verbatim>\<open>pool_t<T>\<close> with the default word type \<^verbatim>\<open>u64_t\<close>, so its words are
  \<open>64 word\<close> and \<^verbatim>\<open>pools_in_block\<close> is 64.  Addresses are natural numbers below \<open>2 ^ 64\<close>.
  What the compiler fixes for the element type are three numbers: \<^verbatim>\<open>sizeof(T)\<close>, the offset
  of the member \<^verbatim>\<open>data\<close> in \<^verbatim>\<open>pool_t<T>\<close> and \<^verbatim>\<open>sizeof(pool_t<T>)\<close>.  \<open>layout_ok\<close> says what
  every such layout satisfies: the two bitmap tiers (8 and 64 * 8 bytes) lie before
  \<^verbatim>\<open>data\<close>, and the 4096 elements of \<^verbatim>\<open>data\<close> lie inside the pool.
\<close>

record layout =
  sizeof_T :: nat
  data_offset :: nat
  sizeof_pool :: nat

definition layout_ok :: "layout \<Rightarrow> bool" where
  "layout_ok L =
     (0 < sizeof_T L \<and> 8 + 64 * 8 \<le> data_offset L \<and>
      data_offset L + 4096 * sizeof_T L \<le> sizeof_pool L)"

definition pools_in_block :: nat where
  "pools_in_block = LENGTH(64)"

text \<open>
  \<^verbatim>\<open>block_t\<close> has the members \<^verbatim>\<open>ptr\<close> and \<^verbatim>\<open>unmaxed_pools\<close>.  The third field here is the
  storage that \<^verbatim>\<open>ptr\<close> points to, read as the array of pools the code casts it to; a
  block owns that storage exclusively.  The state of a multi-pool is its only data
  member, the vector \<^verbatim>\<open>memory_blocks\<close>.
\<close>

record block_t =
  ptr :: nat
  unmaxed_pools :: "64 word"
  pools :: "(64 word) pool_t list"

type_synonym multi_pool_t = "block_t list"

text \<open>
  \<^verbatim>\<open>(pool_t<T>*) memory_block.ptr + pool_idx\<close>, the address of its member \<^verbatim>\<open>data\<close>, and
  the address of a slot of that pool.
\<close>

definition pool_addr :: "layout \<Rightarrow> nat \<Rightarrow> nat \<Rightarrow> nat" where
  "pool_addr L base pool_idx = base + pool_idx * sizeof_pool L"

definition data_addr :: "layout \<Rightarrow> nat \<Rightarrow> nat \<Rightarrow> nat" where
  "data_addr L base pool_idx = pool_addr L base pool_idx + data_offset L"

definition slot_addr :: "layout \<Rightarrow> nat \<Rightarrow> nat \<Rightarrow> nat \<Rightarrow> nat" where
  "slot_addr L base pool_idx i = elem_addr (sizeof_T L) (data_addr L base pool_idx) i"

text \<open>
  \<^verbatim>\<open>new_block()\<close>.  The result of \<^verbatim>\<open>malloc\<close> is the argument \<open>m\<close>, with 0 for the null
  pointer.  The source does not test it: the block record is pushed first, then the
  pools are initialised through the pointer.  A fault carries the state in which it
  occurs.
\<close>

definition new_block :: "nat \<Rightarrow> multi_pool_t \<Rightarrow> fault \<times> multi_pool_t + multi_pool_t" where
  "new_block m memory_blocks =
     (let memory_block = \<lparr>ptr = m, unmaxed_pools = NOT 0, pools = []\<rparr>;
          pushed = memory_blocks @ [memory_block]
      in if m = 0 then Inl (Null_dereference, pushed)
         else Inr (memory_blocks @
                   [memory_block\<lparr>pools := replicate pools_in_block pool_init\<rparr>]))"

text \<open>The constructor calls \<^verbatim>\<open>new_block()\<close> on the empty vector.\<close>

definition multi_pool :: "nat \<Rightarrow> fault \<times> multi_pool_t + multi_pool_t" where
  "multi_pool m = new_block m []"

text \<open>
  \<^verbatim>\<open>allocate(n)\<close>.  The body of the loop, for a block \<open>i\<close> whose \<^verbatim>\<open>unmaxed_pools\<close> is not
  zero, is \<open>allocate_in\<close>; the loop \<^verbatim>\<open>for (i = size - 1; i < size; --i)\<close> visits the blocks
  from the tail to the head and is \<open>allocate_scan\<close>, whose last argument is the number of
  blocks still to visit.  \<open>None\<close> means that the loop ended without a return.
\<close>

definition allocate_in ::
  "layout \<Rightarrow> multi_pool_t \<Rightarrow> nat \<Rightarrow> fault \<times> multi_pool_t + nat \<times> multi_pool_t" where
  "allocate_in L memory_blocks i =
     (let memory_block = memory_blocks ! i in
      case ctz (unmaxed_pools memory_block) of
        None \<Rightarrow> Inl (Ctz_of_zero, memory_blocks)
      | Some pool_idx \<Rightarrow>
         (case pool_allocate (sizeof_T L) (data_addr L (ptr memory_block) pool_idx)
                 (pools memory_block ! pool_idx) of
            Inl f \<Rightarrow> Inl (f, memory_blocks)
          | Inr (result, pool) \<Rightarrow>
              Inr (result,
                   memory_blocks[i := memory_block
                     \<lparr>unmaxed_pools :=
                        (if pool_full pool
                         then clear_bit_w (unmaxed_pools memory_block) pool_idx
                         else unmaxed_pools memory_block),
                      pools := (pools memory_block)[pool_idx := pool]\<rparr>])))"

fun allocate_scan ::
  "layout \<Rightarrow> multi_pool_t \<Rightarrow> nat \<Rightarrow> (fault \<times> multi_pool_t + nat \<times> multi_pool_t) option" where
  "allocate_scan L memory_blocks 0 = None"
| "allocate_scan L memory_blocks (Suc i) =
     (if unmaxed_pools (memory_blocks ! i) \<noteq> 0 then Some (allocate_in L memory_blocks i)
      else allocate_scan L memory_blocks i)"

text \<open>
  The flag \<open>dbg\<close> says whether assertions are compiled in.  After \<^verbatim>\<open>new_block()\<close> the
  source allocates from the first pool of \<^verbatim>\<open>memory_blocks.back()\<close> and does not look at
  \<^verbatim>\<open>full()\<close>.
\<close>

definition mp_allocate ::
  "layout \<Rightarrow> bool \<Rightarrow> nat \<Rightarrow> nat \<Rightarrow> multi_pool_t \<Rightarrow> fault \<times> multi_pool_t + nat \<times> multi_pool_t" where
  "mp_allocate L dbg n m memory_blocks =
     (if dbg \<and> n \<noteq> 1 then Inl (Assertion_failed, memory_blocks)
      else
        (case allocate_scan L memory_blocks (length memory_blocks) of
           Some r \<Rightarrow> r
         | None \<Rightarrow>
            (case new_block m memory_blocks of
               Inl e \<Rightarrow> Inl e
             | Inr blocks \<Rightarrow>
                (let back = last blocks in
                 case pool_allocate (sizeof_T L) (data_addr L (ptr back) 0) (pools back ! 0) of
                   Inl f \<Rightarrow> Inl (f, blocks)
                 | Inr (result, pool) \<Rightarrow>
                     Inr (result,
                          blocks[length blocks - 1 := back\<lparr>pools := (pools back)[0 := pool]\<rparr>])))))"

text \<open>
  \<^verbatim>\<open>deallocate(ptr, n)\<close>.  In \<^verbatim>\<open>((u8_t*)ptr - (u8_t*)memory_block.ptr) / pool_size\<close> the left
  operand is a \<^verbatim>\<open>ptrdiff_t\<close> and the right one a \<^verbatim>\<open>size_t\<close>, so the difference is converted
  to \<^verbatim>\<open>size_t\<close> (reduced modulo \<open>2 ^ 64\<close>) and the division is unsigned; this is
  \<open>byte_diff\<close> and \<open>pool_index\<close>.  The comparison in the \<^verbatim>\<open>assert\<close> is unsigned for the same
  reason.  The body of the loop for the block that passes the test is \<open>deallocate_in\<close>:
  it sets the bit of \<^verbatim>\<open>unmaxed_pools\<close> first and then calls the pool.  The argument \<open>n\<close>
  does not occur in the body of the source.
\<close>

definition byte_diff :: "nat \<Rightarrow> nat \<Rightarrow> nat" where
  "byte_diff p q = nat ((int p - int q) mod 2 ^ 64)"

definition pool_index :: "layout \<Rightarrow> nat \<Rightarrow> block_t \<Rightarrow> nat" where
  "pool_index L p memory_block = byte_diff p (ptr memory_block) div sizeof_pool L"

definition deallocate_in ::
  "layout \<Rightarrow> bool \<Rightarrow> nat \<Rightarrow> multi_pool_t \<Rightarrow> nat \<Rightarrow> fault \<times> multi_pool_t + multi_pool_t" where
  "deallocate_in L dbg p memory_blocks i =
     (let memory_block = memory_blocks ! i;
          pool_size = sizeof_pool L;
          pool_idx = pool_index L p memory_block
      in if dbg \<and> \<not> byte_diff p (pool_addr L (ptr memory_block) pool_idx) < pool_size
         then Inl (Assertion_failed, memory_blocks)
         else
           (let marked = memory_block
                  \<lparr>unmaxed_pools := set_bit_w (unmaxed_pools memory_block) pool_idx\<rparr>
            in case pool_deallocate (sizeof_T L) (data_addr L (ptr memory_block) pool_idx) p
                      (pools memory_block ! pool_idx) of
                 Inl f \<Rightarrow> Inl (f, memory_blocks[i := marked])
               | Inr pool \<Rightarrow>
                   Inr (memory_blocks[i := marked
                          \<lparr>pools := (pools memory_block)[pool_idx := pool]\<rparr>])))"

fun deallocate_scan ::
  "layout \<Rightarrow> bool \<Rightarrow> nat \<Rightarrow> multi_pool_t \<Rightarrow> nat \<Rightarrow> fault \<times> multi_pool_t + multi_pool_t" where
  "deallocate_scan L dbg p memory_blocks 0 = Inr memory_blocks"
| "deallocate_scan L dbg p memory_blocks (Suc i) =
     (if pool_index L p (memory_blocks ! i) < pools_in_block
      then deallocate_in L dbg p memory_blocks i
      else deallocate_scan L dbg p memory_blocks i)"

definition mp_deallocate ::
  "layout \<Rightarrow> bool \<Rightarrow> nat \<Rightarrow> nat \<Rightarrow> multi_pool_t \<Rightarrow> fault \<times> multi_pool_t + multi_pool_t" where
  "mp_deallocate L dbg p n memory_blocks =
     deallocate_scan L dbg p memory_blocks (length memory_blocks)"

section \<open>States used in the statements\<close>

text \<open>
  \<open>fresh_block m\<close> is the block that \<^verbatim>\<open>new_block()\<close> appends for the address \<open>m\<close>: every bit
  of every tier set.  \<open>exhausted_block m\<close> is a block all of whose slots are allocated.
\<close>

definition fresh_block :: "nat \<Rightarrow> block_t" where
  "fresh_block m = \<lparr>ptr = m, unmaxed_pools = NOT 0, pools = replicate pools_in_block pool_init\<rparr>"

definition exhausted_block :: "nat \<Rightarrow> block_t" where
  "exhausted_block m =
     \<lparr>ptr = m, unmaxed_pools = 0,
      pools = replicate pools_in_block \<lparr>unused_words = 0, unallocated_slots = replicate 64 0\<rparr>\<rparr>"

section \<open>Closed forms and drivers for the multi-pool\<close>

text \<open>
  \<open>block_after a n\<close> is the closed form of the block at address \<open>a\<close> after \<open>n\<close> allocations
  in it: \<open>n div 4096\<close> pools are full, the next one has seen \<open>n mod 4096\<close> allocations.
\<close>

definition block_after :: "nat \<Rightarrow> nat \<Rightarrow> block_t" where
  "block_after a n =
     \<lparr>ptr = a, unmaxed_pools = NOT (mask (n div 4096)),
      pools = map (\<lambda>i. pool_after (n - i * 4096)) [0..<pools_in_block]\<rparr>"

text \<open>
  The addresses that \<^verbatim>\<open>malloc\<close> returns are given by a function \<open>mem\<close>: \<open>mem j\<close> is the result
  of the call that creates block \<open>j\<close> (blocks are never released before the destructor, so
  the call for block \<open>j\<close> is made when the vector holds \<open>j\<close> blocks), and 0 is the null
  pointer.  \<open>mp_allocate_n\<close> performs \<open>k\<close> consecutive calls of \<^verbatim>\<open>allocate(1)\<close> and collects the
  returned pointers; it stops at the first fault.
\<close>

fun mp_allocate_n ::
  "layout \<Rightarrow> bool \<Rightarrow> (nat \<Rightarrow> nat) \<Rightarrow> nat \<Rightarrow> multi_pool_t \<Rightarrow>
     fault \<times> multi_pool_t + nat list \<times> multi_pool_t" where
  "mp_allocate_n L dbg mem 0 st = Inr ([], st)"
| "mp_allocate_n L dbg mem (Suc k) st =
     (case mp_allocate L dbg 1 (mem (length st)) st of
        Inl e \<Rightarrow> Inl e
      | Inr (p, st') \<Rightarrow>
         (case mp_allocate_n L dbg mem k st' of
            Inl e \<Rightarrow> Inl e
          | Inr (ps, st'') \<Rightarrow> Inr (p # ps, st'')))"

text \<open>
  The closed form of the multi-pool after \<open>k\<close> allocations from its construction, and the
  address of the slot that allocation number \<open>k\<close> (counted from 0) returns.  A block holds
  64 * 4096 = 262144 slots.  That the code reaches these states and returns these
  addresses is \<open>mp_allocate_n_after\<close>.
\<close>

definition blocks_needed :: "nat \<Rightarrow> nat" where
  "blocks_needed k = Suc ((k - 1) div 262144)"

definition state_after :: "(nat \<Rightarrow> nat) \<Rightarrow> nat \<Rightarrow> multi_pool_t" where
  "state_after mem k = map (\<lambda>j. block_after (mem j) (k - j * 262144)) [0..<blocks_needed k]"

definition nth_slot :: "layout \<Rightarrow> (nat \<Rightarrow> nat) \<Rightarrow> nat \<Rightarrow> nat" where
  "nth_slot L mem k =
     slot_addr L (mem (k div 262144)) (k mod 262144 div 4096) (k mod 4096)"

text \<open>
  What \<^verbatim>\<open>malloc\<close> guarantees for blocks that are allocated at the same time: each lies
  inside the address space and no two overlap.
\<close>

definition disjoint_blocks :: "layout \<Rightarrow> multi_pool_t \<Rightarrow> bool" where
  "disjoint_blocks L st =
     (\<forall>j<length st.
        ptr (st ! j) + 64 * sizeof_pool L \<le> 2 ^ 64 \<and>
        (\<forall>j'<j. ptr (st ! j) + 64 * sizeof_pool L \<le> ptr (st ! j') \<or>
                 ptr (st ! j') + 64 * sizeof_pool L \<le> ptr (st ! j)))"

text \<open>
  The effect of \<^verbatim>\<open>pool_t::deallocate\<close> for the slot with index \<open>idx\<close>, and of
  \<^verbatim>\<open>multi_pool_t::deallocate\<close> on the block that owns slot \<open>idx\<close> of its pool \<open>i\<close>.  That the
  code has this effect is \<open>pool_deallocate_slot\<close> and \<open>mp_deallocate_live\<close>.
\<close>

definition slot_released :: "nat \<Rightarrow> (64 word) pool_t \<Rightarrow> (64 word) pool_t" where
  "slot_released idx pl =
     (let w = set_bit_w (unallocated_slots pl ! (idx div 64)) (idx mod 64)
      in \<lparr>unused_words =
            (if w = NOT 0 then set_bit_w (unused_words pl) (idx div 64) else unused_words pl),
          unallocated_slots = (unallocated_slots pl)[idx div 64 := w]\<rparr>)"

definition block_released :: "nat \<Rightarrow> nat \<Rightarrow> block_t \<Rightarrow> block_t" where
  "block_released i idx blk =
     blk\<lparr>unmaxed_pools := set_bit_w (unmaxed_pools blk) i,
         pools := (pools blk)[i := slot_released idx (pools blk ! i)]\<rparr>"

section \<open>Well-formed states and what deallocation preserves\<close>

text \<open>
  The arrays of a block have their declared sizes: 64 pools, each with 64 words.
\<close>

definition block_wf :: "block_t \<Rightarrow> bool" where
  "block_wf blk =
     (length (pools blk) = pools_in_block \<and> (\<forall>i<pools_in_block. pool_wf (pools blk ! i)))"

text \<open>
  Two properties of the states that consecutive allocations reach, which every
  deallocation preserves: a word of \<^verbatim>\<open>unallocated_slots\<close> that is all-ones has its bit in
  \<^verbatim>\<open>unused_words\<close> (\<open>pool_J\<close>), and a pool all of whose words are all-ones has its bit in
  \<^verbatim>\<open>unmaxed_pools\<close> (\<open>block_K\<close>).  The converse directions are what the source does not
  maintain.  \<open>slot_free\<close> reads the bit of a slot.
\<close>

definition pool_J :: "(64 word) pool_t \<Rightarrow> bool" where
  "pool_J pl = (\<forall>k<64. unallocated_slots pl ! k = NOT 0 \<longrightarrow> bit (unused_words pl) k)"

definition block_K :: "block_t \<Rightarrow> bool" where
  "block_K blk =
     (\<forall>i<64. (\<forall>k<64. unallocated_slots (pools blk ! i) ! k = NOT 0) \<longrightarrow>
             bit (unmaxed_pools blk) i)"

definition block_inv :: "block_t \<Rightarrow> bool" where
  "block_inv blk = (block_wf blk \<and> (\<forall>i<64. pool_J (pools blk ! i)) \<and> block_K blk)"

definition slot_free :: "block_t \<Rightarrow> nat \<Rightarrow> nat \<Rightarrow> bool" where
  "slot_free blk i idx = bit (unallocated_slots (pools blk ! i) ! (idx div 64)) (idx mod 64)"

text \<open>
  \<open>mp_deallocate_all\<close> calls \<^verbatim>\<open>deallocate(q, 1)\<close> for the pointers of a list, in the order of
  the list, and stops at the first fault.  \<open>malloc_ok L mem N\<close> says of the first \<open>N\<close> blocks
  that \<^verbatim>\<open>malloc\<close> returns what it guarantees for successful calls: the pointer is not null,
  the block lies inside the address space, and it overlaps no block returned before.
\<close>

fun mp_deallocate_all ::
  "layout \<Rightarrow> bool \<Rightarrow> nat list \<Rightarrow> multi_pool_t \<Rightarrow> fault \<times> multi_pool_t + multi_pool_t" where
  "mp_deallocate_all L dbg [] st = Inr st"
| "mp_deallocate_all L dbg (q # qs) st =
     (case mp_deallocate L dbg q 1 st of
        Inl e \<Rightarrow> Inl e
      | Inr st' \<Rightarrow> mp_deallocate_all L dbg qs st')"

definition malloc_ok :: "layout \<Rightarrow> (nat \<Rightarrow> nat) \<Rightarrow> nat \<Rightarrow> bool" where
  "malloc_ok L mem N =
     (\<forall>j<N. mem j \<noteq> 0 \<and> mem j + 64 * sizeof_pool L \<le> 2 ^ 64 \<and>
        (\<forall>j'<j. mem j + 64 * sizeof_pool L \<le> mem j' \<or>
                 mem j' + 64 * sizeof_pool L \<le> mem j))"

text \<open>
  The state of a multi-pool whose block \<open>j\<close> lies at \<open>mem j\<close> and whose blocks have the
  properties above.
\<close>

definition mp_inv :: "(nat \<Rightarrow> nat) \<Rightarrow> multi_pool_t \<Rightarrow> bool" where
  "mp_inv mem st = (\<forall>j<length st. ptr (st ! j) = mem j \<and> block_inv (st ! j))"

section \<open>Bit scan and bit update\<close>

lemma and_push_bit_1_eq_0_iff: "(push_bit k 1 AND (n :: 'w::len word) = 0) = (\<not> bit n k)"
  by (metis and.commute and_exp_eq_0_iff_not_bit push_bit_of_1)

lemma ctz_loop_unfold:
  "ctz_loop n bits =
     (if LENGTH('w) \<le> bits then None
      else if bit n bits then Some bits else ctz_loop n (bits + 1))"
  for n :: "'w::len word"
  by (subst ctz_loop.simps) (simp only: and_push_bit_1_eq_0_iff, simp)

lemma ctz_loop_Some:
  "ctz_loop n k = Some j \<Longrightarrow> k \<le> j \<and> j < LENGTH('w) \<and> bit n j \<and> (\<forall>i. k \<le> i \<and> i < j \<longrightarrow> \<not> bit n i)"
  for n :: "'w::len word"
proof (induction n k rule: ctz_loop.induct)
  case (1 n bits)
  show ?case
  proof (cases "LENGTH('w) \<le> bits")
    case True
    with "1.prems" show ?thesis by (simp add: ctz_loop.simps [of n bits])
  next
    case False
    show ?thesis
    proof (cases "bit n bits")
      case True
      with False "1.prems" have "j = bits"
        by (simp add: ctz_loop_unfold [of n bits])
      with True False show ?thesis by auto
    next
      case nb: False
      with False "1.prems" have r: "ctz_loop n (bits + 1) = Some j"
        by (simp add: ctz_loop_unfold [of n bits])
      from "1.IH" [OF False _ r] nb and_push_bit_1_eq_0_iff [of bits n]
      have ih: "bits + 1 \<le> j \<and> j < LENGTH('w) \<and> bit n j \<and> (\<forall>i. bits + 1 \<le> i \<and> i < j \<longrightarrow> \<not> bit n i)"
        by simp
      have "\<not> bit n i" if "bits \<le> i" "i < j" for i
        using that nb ih by (cases "i = bits") auto
      with ih show ?thesis by auto
    qed
  qed
qed

lemma ctz_loop_None:
  "ctz_loop n k = None \<Longrightarrow> \<forall>i\<ge>k. \<not> bit n i"
  for n :: "'w::len word"
proof (induction n k rule: ctz_loop.induct)
  case (1 n bits)
  show ?case
  proof (cases "LENGTH('w) \<le> bits")
    case True
    then show ?thesis by (auto dest: bit_imp_le_length)
  next
    case False
    show ?thesis
    proof (cases "bit n bits")
      case True
      with False "1.prems" show ?thesis
        by (simp add: ctz_loop_unfold [of n bits])
    next
      case nb: False
      with False "1.prems" have r: "ctz_loop n (bits + 1) = None"
        by (simp add: ctz_loop_unfold [of n bits])
      from "1.IH" [OF False _ r] nb and_push_bit_1_eq_0_iff [of bits n] have ih: "\<forall>i\<ge>bits + 1. \<not> bit n i"
        by simp
      have "\<not> bit n i" if "bits \<le> i" for i
        using that nb ih by (cases "i = bits") auto
      then show ?thesis by blast
    qed
  qed
qed

lemma ctz_eq_None_iff: "ctz n = None \<longleftrightarrow> n = 0" for n :: "'w::len word"
proof
  assume "ctz n = None"
  then have "\<forall>i. \<not> bit n i" using ctz_loop_None [of n 0] by (simp add: ctz_def)
  then show "n = 0" by (simp add: bit_eq_iff)
next
  assume z: "n = 0"
  show "ctz n = None"
  proof (cases "ctz n")
    case (Some j)
    then have "bit n j" using ctz_loop_Some [of n 0 j] by (simp add: ctz_def)
    with z show ?thesis by simp
  qed simp
qed

lemma ctz_SomeD:
  "ctz n = Some j \<Longrightarrow> j < LENGTH('w) \<and> bit n j \<and> (\<forall>i<j. \<not> bit n i)" for n :: "'w::len word"
  using ctz_loop_Some [of n 0 j] by (simp add: ctz_def)

lemma ctz_SomeI:
  assumes "bit n j" "\<And>i. i < j \<Longrightarrow> \<not> bit n i"
  shows "ctz n = Some j"
proof (cases "ctz n")
  case None
  with assms show ?thesis by (simp add: ctz_eq_None_iff)
next
  case (Some k)
  from ctz_SomeD [OF Some] have k: "bit n k" "\<forall>i<k. \<not> bit n i" by auto
  have "k = j"
    using k assms by (meson linorder_neqE_nat)
  with Some show ?thesis by simp
qed

lemma ctz_not_mask: "j < LENGTH('w) \<Longrightarrow> ctz (NOT (mask j) :: 'w::len word) = Some j"
  by (rule ctz_SomeI) (simp_all add: bit_simps)

lemma bit_set_bit_w: "bit (set_bit_w n b) i \<longleftrightarrow> bit n i \<or> (i = b \<and> i < LENGTH('w))" for n :: "'w::len word"
  by (auto simp add: set_bit_w_def bit_simps)

lemma bit_clear_bit_w: "bit (clear_bit_w n b) i \<longleftrightarrow> bit n i \<and> i \<noteq> b" for n :: "'w::len word"
  by (auto simp add: clear_bit_w_def bit_simps dest: bit_imp_le_length)

section \<open>The pool after consecutive allocations\<close>

lemma div_add_lt: "r < b \<Longrightarrow> (q * b + r) div (b::nat) = q"
  by (metis add.commute add.right_neutral div_less div_mult_self1 gr_implies_not0)

lemma bit_not_mask_word: "bit (NOT (mask n) :: 'w::len word) i \<longleftrightarrow> i < LENGTH('w) \<and> n \<le> i"
  by (auto simp add: bit_simps)

lemma not_mask_eq_0_iff: "(NOT (mask n) :: 'w::len word) = 0 \<longleftrightarrow> LENGTH('w) \<le> n"
proof
  assume "(NOT (mask n) :: 'w word) = 0"
  then have "\<not> bit (NOT (mask n) :: 'w word) n" by simp
  then show "LENGTH('w) \<le> n" by (simp add: bit_not_mask_word)
next
  assume "LENGTH('w) \<le> n"
  then show "(NOT (mask n) :: 'w word) = 0"
    by (intro bit_word_eqI) (simp add: bit_not_mask_word)
qed

lemma not_mask_cong:
  "min LENGTH('w) n = min LENGTH('w) n' \<Longrightarrow> (NOT (mask n) :: 'w::len word) = NOT (mask n')"
  by (rule bit_word_eqI) (auto simp add: bit_not_mask_word min_def split: if_splits)

lemma clear_bit_not_mask: "clear_bit_w (NOT (mask n) :: 'w::len word) n = NOT (mask (Suc n))"
  by (rule bit_word_eqI) (auto simp add: bit_clear_bit_w bit_not_mask_word)

lemma pool_after_0: "pool_after 0 = pool_init"
  by (simp add: pool_after_def pool_init_def map_replicate_const)

lemma pool_wf_after: "pool_wf (pool_after m)"
  by (simp add: pool_after_def pool_wf_def)

lemma pool_full_after: "pool_full (pool_after m :: ('w::len word) pool_t) \<longleftrightarrow> LENGTH('w) * LENGTH('w) \<le> m"
  by (simp add: pool_full_def pool_after_def not_mask_eq_0_iff less_eq_div_iff_mult_less_eq)

lemma pool_allocate_eq:
  "ctz (unused_words p) = Some k \<Longrightarrow> ctz (unallocated_slots p ! k) = Some s \<Longrightarrow>
   pool_allocate tsz data p =
     Inr (elem_addr tsz data (k * LENGTH('w) + s),
          \<lparr>unused_words =
             (if clear_bit_w (unallocated_slots p ! k) s = 0
              then clear_bit_w (unused_words p) k else unused_words p),
           unallocated_slots = (unallocated_slots p)[k := clear_bit_w (unallocated_slots p ! k) s]\<rparr>)"
  for p :: "('w::len word) pool_t"
  by (simp add: pool_allocate_def Let_def)

lemma pool_allocate_after:
  assumes "m < LENGTH('w) * LENGTH('w)"
  shows "pool_allocate tsz data (pool_after m :: ('w::len word) pool_t) =
           Inr (elem_addr tsz data m, pool_after (Suc m))"
proof -
  let ?b = "LENGTH('w)"
  define j where "j = m div ?b"
  define r where "r = m mod ?b"
  have j: "j < ?b" using assms by (simp add: j_def less_mult_imp_div_less)
  have r: "r < ?b" by (simp add: r_def)
  have m: "m = j * ?b + r" by (simp add: j_def r_def)
  have c1: "ctz (unused_words (pool_after m :: ('w word) pool_t)) = Some j"
    using j by (simp add: pool_after_def ctz_not_mask j_def)
  have sj: "unallocated_slots (pool_after m :: ('w word) pool_t) ! j = NOT (mask r)"
    using j by (simp add: pool_after_def m)
  have c2: "ctz (NOT (mask r) :: 'w word) = Some r"
    using r by (rule ctz_not_mask)
  have slots: "(unallocated_slots (pool_after m :: ('w word) pool_t))[j := NOT (mask (Suc r))] =
      unallocated_slots (pool_after (Suc m) :: ('w word) pool_t)"
  proof (rule nth_equalityI)
    show "length ((unallocated_slots (pool_after m :: ('w word) pool_t))[j := NOT (mask (Suc r))]) =
      length (unallocated_slots (pool_after (Suc m) :: ('w word) pool_t))"
      by (simp add: pool_after_def)
  next
    fix k
    assume "k < length ((unallocated_slots (pool_after m :: ('w word) pool_t))[j := NOT (mask (Suc r))])"
    then have k: "k < ?b" by (simp add: pool_after_def)
    show "(unallocated_slots (pool_after m :: ('w word) pool_t))[j := NOT (mask (Suc r))] ! k =
      unallocated_slots (pool_after (Suc m) :: ('w word) pool_t) ! k"
    proof (cases "k = j")
      case True
      then show ?thesis using j by (simp add: pool_after_def m)
    next
      case False
      have "min ?b (m - k * ?b) = min ?b (Suc m - k * ?b)"
      proof (cases "k < j")
        case True
        then have "Suc k \<le> j" by simp
        then have "Suc k * ?b \<le> j * ?b" by (rule mult_le_mono1)
        then have "?b \<le> m - k * ?b" using m by simp
        then show ?thesis by simp
      next
        case kj: False
        with False have "Suc j \<le> k" by simp
        then have "Suc j * ?b \<le> k * ?b" by (rule mult_le_mono1)
        then have "Suc m \<le> k * ?b" using m r by simp
        then show ?thesis by simp
      qed
      then have "(NOT (mask (m - k * ?b)) :: 'w word) = NOT (mask (Suc m - k * ?b))"
        by (rule not_mask_cong)
      with False k show ?thesis by (simp add: pool_after_def)
    qed
  qed
  have words: "(if (NOT (mask (Suc r)) :: 'w word) = 0
                then clear_bit_w (NOT (mask j)) j else NOT (mask j)) =
      (NOT (mask (Suc m div ?b)) :: 'w word)"
  proof (cases "Suc r = ?b")
    case True
    then have "Suc m = Suc j * ?b" using m by simp
    then have "Suc m div ?b = Suc j" by simp
    with True show ?thesis by (simp add: not_mask_eq_0_iff clear_bit_not_mask)
  next
    case False
    with r have lt: "Suc r < ?b" by simp
    have e: "Suc m = j * ?b + Suc r" using m by simp
    have "(j * ?b + Suc r) div ?b = j" using lt by (rule div_add_lt)
    then have "Suc m div ?b = j" by (simp only: e)
    with lt show ?thesis by (simp add: not_mask_eq_0_iff)
  qed
  have uw: "unused_words (pool_after m :: ('w word) pool_t) = NOT (mask j)"
    by (simp add: pool_after_def j_def)
  have res: "pool_after (Suc m) =
     \<lparr>unused_words = (NOT (mask (Suc m div ?b)) :: 'w word),
      unallocated_slots = unallocated_slots (pool_after (Suc m) :: ('w word) pool_t)\<rparr>"
    by (simp add: pool_after_def)
  have c2': "ctz (unallocated_slots (pool_after m :: ('w word) pool_t) ! j) = Some r"
    using c2 by (simp only: sj)
  have "pool_allocate tsz data (pool_after m :: ('w word) pool_t) =
      Inr (elem_addr tsz data (j * ?b + r),
           \<lparr>unused_words =
              (if (NOT (mask (Suc r)) :: 'w word) = 0
               then clear_bit_w (NOT (mask j)) j else NOT (mask j)),
            unallocated_slots =
              (unallocated_slots (pool_after m :: ('w word) pool_t))[j := NOT (mask (Suc r))]\<rparr>)"
    by (simp only: pool_allocate_eq [OF c1 c2'] sj uw clear_bit_not_mask)
  also have "\<dots> = Inr (elem_addr tsz data m, pool_after (Suc m))"
    by (subst res) (simp only: words slots flip: m)
  finally show ?thesis .
qed

lemma pool_allocate_n_after:
  "m + n \<le> LENGTH('w) * LENGTH('w) \<Longrightarrow>
   pool_allocate_n tsz data n (pool_after m :: ('w::len word) pool_t) =
     Inr (map (elem_addr tsz data) [m..<m + n], pool_after (m + n))"
proof (induction n arbitrary: m)
  case 0
  then show ?case by simp
next
  case (Suc n)
  then have m: "m < LENGTH('w) * LENGTH('w)" and s: "Suc m + n \<le> LENGTH('w) * LENGTH('w)" by simp_all
  show ?case
    by (simp add: pool_allocate_after [OF m] Suc.IH [OF s] upt_rec [of m])
qed

lemma clear_bit_w_eq_unset_bit: "clear_bit_w n b = unset_bit b n"
  by (simp add: clear_bit_w_def unset_bit_eq_and_not)

lemma set_bit_w_eq_set_bit: "set_bit_w n b = set_bit b n"
  by (simp add: set_bit_w_def set_bit_eq_or)

lemma pool_allocate_full:
  "pool_full p \<Longrightarrow> pool_allocate tsz data p = Inl Ctz_of_zero"
  by (simp add: pool_allocate_def pool_full_def ctz_eq_None_iff [THEN iffD2])

section \<open>Deallocation in a pool, allocation from a new block\<close>

lemma pool_deallocate_elem:
  fixes p :: "('w::len word) pool_t"
  assumes "0 < tsz" and "idx < LENGTH('w) * LENGTH('w)" and "LENGTH('w) * LENGTH('w) \<le> 2 ^ 32"
  shows "pool_deallocate tsz data (elem_addr tsz data idx) p =
     Inr \<lparr>unused_words =
            (if 32 \<le> LENGTH('w) \<and>
                set_bit_w (unallocated_slots p ! (idx div LENGTH('w))) (idx mod LENGTH('w)) = NOT 0
             then set_bit_w (unused_words p) (idx div LENGTH('w)) else unused_words p),
          unallocated_slots = (unallocated_slots p)
            [idx div LENGTH('w) :=
               set_bit_w (unallocated_slots p ! (idx div LENGTH('w))) (idx mod LENGTH('w))]\<rparr>"
proof -
  have d: "int (elem_addr tsz data idx) - int data = int idx * int tsz"
    by (simp add: elem_addr_def)
  have q: "int idx * int tsz div int tsz = int idx"
    using assms(1) by simp
  have "idx < 2 ^ 32" using assms(2,3) by simp
  then have "int idx < 2 ^ 32" by (metis of_nat_less_iff of_nat_numeral of_nat_power)
  then have m: "int idx mod 2 ^ 32 = int idx" by simp
  have b: "\<not> LENGTH('w) \<le> idx div LENGTH('w)"
    using assms(2) by (simp add: less_mult_imp_div_less not_le)
  show ?thesis
    unfolding pool_deallocate_def d Let_def q m
    using b by simp
qed

lemma allocate_scan_None:
  "(\<forall>i<k. unmaxed_pools (st ! i) = 0) \<Longrightarrow> allocate_scan L st k = None"
  by (induction k) simp_all

lemma pool_allocate_init:
  "pool_allocate tsz data (pool_init :: ('w::len word) pool_t) =
     Inr (elem_addr tsz data 0, pool_after 1)"
  using pool_allocate_after [of 0 tsz data, where 'w = 'w]
  by (simp add: pool_after_0)

lemma mp_allocate_new_block:
  assumes "\<forall>i<length st. unmaxed_pools (st ! i) = 0" and "\<not> (dbg \<and> n \<noteq> 1)"
  shows "mp_allocate L dbg n m st =
     (if m = 0
      then Inl (Null_dereference, st @ [\<lparr>ptr = 0, unmaxed_pools = NOT 0, pools = []\<rparr>])
      else Inr (slot_addr L m 0 0,
                st @ [(fresh_block m)\<lparr>pools := (pools (fresh_block m))[0 := pool_after 1]\<rparr>]))"
  using assms
  by (auto simp add: mp_allocate_def allocate_scan_None new_block_def Let_def fresh_block_def
      pools_in_block_def pool_allocate_init slot_addr_def)

section \<open>Claims about a single pool\<close>

text \<open>
  C1. In a pool that is not full, let \<open>k\<close> be the index of the lowest set bit of
  \<^verbatim>\<open>unused_words\<close> and \<open>t\<close> the index of the lowest set bit of \<^verbatim>\<open>unallocated_slots[k]\<close>.
  Then \<^verbatim>\<open>allocate()\<close> returns the address of \<^verbatim>\<open>data[k * b + t]\<close>, clears bit \<open>t\<close> of
  \<^verbatim>\<open>unallocated_slots[k]\<close> and leaves the other words alone, and clears bit \<open>k\<close> of
  \<^verbatim>\<open>unused_words\<close> exactly when that word became zero.  Clearing a bit is stated with the
  library's \<open>unset_bit\<close>.
\<close>

theorem pool_allocate_lowest_bits:
  fixes p :: "('w::len word) pool_t"
  assumes "\<not> pool_full p"
    and "bit (unused_words p) k" and "\<forall>i<k. \<not> bit (unused_words p) i"
    and "bit (unallocated_slots p ! k) t" and "\<forall>i<t. \<not> bit (unallocated_slots p ! k) i"
  shows "\<exists>p'. pool_allocate tsz data p = Inr (elem_addr tsz data (k * LENGTH('w) + t), p') \<and>
           unallocated_slots p' = (unallocated_slots p)[k := unset_bit t (unallocated_slots p ! k)] \<and>
           unused_words p' =
             (if unset_bit t (unallocated_slots p ! k) = 0
              then unset_bit k (unused_words p) else unused_words p)"
proof -
  have c1: "ctz (unused_words p) = Some k"
    using assms(2,3) by (intro ctz_SomeI) auto
  have c2: "ctz (unallocated_slots p ! k) = Some t"
    using assms(4,5) by (intro ctz_SomeI) auto
  show ?thesis
    by (simp add: pool_allocate_eq [OF c1 c2] clear_bit_w_eq_unset_bit)
qed

theorem pool_allocate_lowest_bits_witness:
  "\<not> pool_full (pool_init :: (64 word) pool_t) \<and>
   (\<exists>p'. pool_allocate 8 4096 (pool_init :: (64 word) pool_t) = Inr (elem_addr 8 4096 (0 * 64 + 0), p') \<and>
      unallocated_slots p' = (replicate 64 (NOT 0))[0 := unset_bit 0 (NOT 0)] \<and>
      unused_words p' = NOT 0)"
proof -
  have a: "\<not> pool_full (pool_init :: (64 word) pool_t)"
    by (simp add: pool_full_def pool_init_def)
  have b: "bit (unused_words (pool_init :: (64 word) pool_t)) 0"
    by (simp add: pool_init_def)
  have c: "\<forall>i<0. \<not> bit (unused_words (pool_init :: (64 word) pool_t)) i"
    by simp
  have d: "bit (unallocated_slots (pool_init :: (64 word) pool_t) ! 0) 0"
    by (simp add: pool_init_def)
  have e: "\<forall>i<0. \<not> bit (unallocated_slots (pool_init :: (64 word) pool_t) ! 0) i"
    by simp
  have "bit (unset_bit 0 (NOT 0 :: 64 word)) 1"
    by (simp add: bit_simps)
  then have n0: "unset_bit 0 (NOT 0 :: 64 word) \<noteq> 0"
    by auto
  from pool_allocate_lowest_bits [OF a b c d e, of 8 4096] a n0
  show ?thesis by (simp add: pool_init_def)
qed

text \<open>
  C7. Starting from \<^verbatim>\<open>init()\<close>, every run of \<open>n \<le> b * b\<close> consecutive calls of
  \<^verbatim>\<open>allocate()\<close> succeeds and returns the addresses of \<^verbatim>\<open>data[0]\<close>, ..., \<^verbatim>\<open>data[n - 1]\<close>, and
  the pool is full after it exactly when \<open>n = b * b\<close>: \<^verbatim>\<open>full()\<close> is false before each of the
  first \<open>b * b\<close> allocations and true after the last of them.
\<close>

theorem pool_capacity_exact:
  assumes "n \<le> LENGTH('w) * LENGTH('w)"
  shows "\<exists>p. pool_allocate_n tsz data n (pool_init :: ('w::len word) pool_t) =
              Inr (map (elem_addr tsz data) [0..<n], p) \<and>
            (pool_full p \<longleftrightarrow> n = LENGTH('w) * LENGTH('w))"
  using assms pool_allocate_n_after [of 0 n tsz data, where 'w = 'w]
  by (auto simp add: pool_after_0 pool_full_after)

theorem pool_capacity_exact_witness:
  "(4096::nat) \<le> LENGTH(64) * LENGTH(64) \<and>
   (\<exists>p. pool_allocate_n 8 0 4096 (pool_init :: (64 word) pool_t) =
              Inr (map (elem_addr 8 0) [0..<4096], p) \<and>
            (pool_full p \<longleftrightarrow> (4096::nat) = LENGTH(64) * LENGTH(64)))"
  using pool_capacity_exact [where 'w = 64, of 4096 8 0] by simp

text \<open>
  C2, at the input where it fails.  A pool over \<^verbatim>\<open>u64_t\<close> is initialised, 64 slots are
  allocated (which exhausts word 0 and clears bit 0 of \<^verbatim>\<open>unused_words\<close>), and the first of
  them is deallocated.  Then \<^verbatim>\<open>unallocated_slots[0]\<close> is not zero, but bit 0 of
  \<^verbatim>\<open>unused_words\<close> is still clear: \<^verbatim>\<open>deallocate\<close> sets that bit only when the word has become
  all-ones.
\<close>

theorem pool_bucket_not_remarked:
  "(case pool_allocate_n 8 4096 64 (pool_init :: (64 word) pool_t) of
      Inl f \<Rightarrow> False
    | Inr (ptrs, p1) \<Rightarrow>
       (case pool_deallocate 8 4096 (hd ptrs) p1 of
          Inl f \<Rightarrow> False
        | Inr p2 \<Rightarrow> unallocated_slots p2 ! 0 \<noteq> 0 \<and> \<not> bit (unused_words p2) 0))"
proof -
  have a: "pool_allocate_n 8 4096 64 (pool_init :: (64 word) pool_t) =
      Inr (map (elem_addr 8 4096) [0..<64], pool_after 64)"
    using pool_allocate_n_after [of 0 64 8 4096, where 'w = 64] by (simp add: pool_after_0)
  have h: "hd (map (elem_addr 8 4096) [0..<64]) = elem_addr 8 4096 0"
    by (simp add: upt_rec [of 0 64])
  have s0: "unallocated_slots (pool_after 64 :: (64 word) pool_t) ! 0 = 0"
    by (simp add: pool_after_def not_mask_eq_0_iff)
  have u: "unused_words (pool_after 64 :: (64 word) pool_t) = NOT (mask 1)"
    by (simp add: pool_after_def)
  have w: "set_bit_w (0 :: 64 word) 0 = 1"
    by (simp add: set_bit_w_def)
  have n1: "(1 :: 64 word) \<noteq> NOT 0"
    by simp
  have l: "length (unallocated_slots (pool_after 64 :: (64 word) pool_t)) = 64"
    by (simp add: pool_after_def)
  have d: "pool_deallocate 8 4096 (elem_addr 8 4096 0) (pool_after 64 :: (64 word) pool_t) =
      Inr \<lparr>unused_words = NOT (mask 1),
           unallocated_slots = (unallocated_slots (pool_after 64 :: (64 word) pool_t))[0 := 1]\<rparr>"
    by (subst pool_deallocate_elem) (simp_all add: s0 u w)
  show ?thesis
    by (simp only: a h d sum.case prod.case) (simp add: l bit_simps)
qed

section \<open>Consecutive allocations in the multi-pool\<close>

lemma mod_add_lt: "r < b \<Longrightarrow> (q * b + r) mod (b::nat) = r"
  by simp

lemma staircase_update:
  fixes f :: "nat \<Rightarrow> 'a"
  assumes sat: "\<And>x y. B \<le> x \<Longrightarrow> B \<le> y \<Longrightarrow> f x = f y"
    and j: "j < N" and r: "r < B" and m: "m = j * B + r"
  shows "(map (\<lambda>k. f (m - k * B)) [0..<N])[j := f (Suc r)] = map (\<lambda>k. f (Suc m - k * B)) [0..<N]"
proof (rule nth_equalityI)
  show "length ((map (\<lambda>k. f (m - k * B)) [0..<N])[j := f (Suc r)]) =
      length (map (\<lambda>k. f (Suc m - k * B)) [0..<N])"
    by simp
next
  fix k
  assume "k < length ((map (\<lambda>k. f (m - k * B)) [0..<N])[j := f (Suc r)])"
  then have k: "k < N" by simp
  show "(map (\<lambda>k. f (m - k * B)) [0..<N])[j := f (Suc r)] ! k =
      map (\<lambda>k. f (Suc m - k * B)) [0..<N] ! k"
  proof (cases "k = j")
    case True
    then show ?thesis using j by (simp add: m)
  next
    case False
    have "f (m - k * B) = f (Suc m - k * B)"
    proof (cases "k < j")
      case True
      then have "Suc k \<le> j" by simp
      then have "Suc k * B \<le> j * B" by (rule mult_le_mono1)
      then have "B \<le> m - k * B" "B \<le> Suc m - k * B" using m by simp_all
      then show ?thesis by (rule sat)
    next
      case kj: False
      with False have "Suc j \<le> k" by simp
      then have "Suc j * B \<le> k * B" by (rule mult_le_mono1)
      then have "Suc m \<le> k * B" using m r by simp
      then show ?thesis by simp
    qed
    with False k show ?thesis by simp
  qed
qed

lemma pool_after_saturated:
  assumes "LENGTH('w) * LENGTH('w) \<le> x" and "LENGTH('w) * LENGTH('w) \<le> y"
  shows "(pool_after x :: ('w::len word) pool_t) = pool_after y"
proof -
  have d: "LENGTH('w) \<le> x div LENGTH('w)" "LENGTH('w) \<le> y div LENGTH('w)"
    using assms by (simp_all add: less_eq_div_iff_mult_less_eq)
  have u: "(NOT (mask (x div LENGTH('w))) :: 'w word) = NOT (mask (y div LENGTH('w)))"
    using d by (intro not_mask_cong) simp
  have s: "(NOT (mask (x - k * LENGTH('w))) :: 'w word) = NOT (mask (y - k * LENGTH('w)))"
    if "k < LENGTH('w)" for k
  proof -
    from that have "Suc k \<le> LENGTH('w)" by simp
    then have "Suc k * LENGTH('w) \<le> LENGTH('w) * LENGTH('w)" by (rule mult_le_mono1)
    then have "LENGTH('w) \<le> x - k * LENGTH('w)" "LENGTH('w) \<le> y - k * LENGTH('w)"
      using assms by simp_all
    then show ?thesis by (intro not_mask_cong) simp
  qed
  show ?thesis
    by (simp add: pool_after_def u s)
qed

lemma allocate_in_after:
  assumes i: "i < length st" and b: "st ! i = block_after a n" and n: "n < 64 * 4096"
  shows "allocate_in L st i =
     Inr (slot_addr L a (n div 4096) (n mod 4096), st[i := block_after a (Suc n)])"
proof -
  define j where "j = n div 4096"
  define r where "r = n mod 4096"
  have j: "j < 64" using n by (simp add: j_def)
  have r: "r < 4096" by (simp add: r_def)
  have m: "n = j * 4096 + r" by (simp add: j_def r_def)
  have c1: "ctz (unmaxed_pools (st ! i)) = Some j"
    using j by (simp add: b block_after_def ctz_not_mask j_def)
  have pj: "pools (st ! i) ! j = pool_after r"
    using j by (simp add: b block_after_def pools_in_block_def m)
  have pa: "pool_allocate (sizeof_T L) (data_addr L a j) (pool_after r :: (64 word) pool_t) =
      Inr (elem_addr (sizeof_T L) (data_addr L a j) r, pool_after (Suc r))"
    using r by (intro pool_allocate_after) simp
  have sat: "\<And>x y. 4096 \<le> x \<Longrightarrow> 4096 \<le> y \<Longrightarrow> (pool_after x :: (64 word) pool_t) = pool_after y"
    by (rule pool_after_saturated) simp_all
  have pl: "(pools (st ! i))[j := pool_after (Suc r)] = pools (block_after a (Suc n))"
    using staircase_update [of 4096 "pool_after :: nat \<Rightarrow> (64 word) pool_t" j 64 r n, OF sat j r m]
    by (simp add: b block_after_def pools_in_block_def)
  have um: "(if pool_full (pool_after (Suc r) :: (64 word) pool_t)
             then clear_bit_w (unmaxed_pools (st ! i)) j else unmaxed_pools (st ! i)) =
      unmaxed_pools (block_after a (Suc n))"
  proof (cases "Suc r = 4096")
    case True
    then have "Suc n = Suc j * 4096" using m by simp
    then have "Suc n div 4096 = Suc j" by simp
    with True show ?thesis
      by (simp add: pool_full_after b block_after_def clear_bit_not_mask flip: j_def)
  next
    case False
    with r have lt: "Suc r < 4096" by simp
    have e: "Suc n = j * 4096 + Suc r" using m by simp
    have "(j * 4096 + Suc r) div 4096 = j" using lt by (rule div_add_lt)
    then have "Suc n div 4096 = j" by (simp only: e)
    with lt show ?thesis
      by (simp add: pool_full_after b block_after_def flip: j_def)
  qed
  have pt: "ptr (st ! i) = a" by (simp add: b block_after_def)
  have blk: "(st ! i)\<lparr>unmaxed_pools := unmaxed_pools (block_after a (Suc n)),
                      pools := pools (block_after a (Suc n))\<rparr> = block_after a (Suc n)"
    by (simp add: b block_after_def)
  show ?thesis
    unfolding allocate_in_def Let_def c1 option.case pt pj pa sum.case prod.case um pl blk
    by (simp add: slot_addr_def j_def r_def)
qed

lemma fresh_block_eq_after: "fresh_block a = block_after a 0"
  by (simp add: fresh_block_def block_after_def pool_after_0 map_replicate_const)

lemma block_after_saturated:
  assumes "262144 \<le> x" and "262144 \<le> y"
  shows "block_after a x = block_after a y"
proof -
  have d: "64 \<le> x div 4096" "64 \<le> y div 4096" using assms by simp_all
  have u: "(NOT (mask (x div 4096)) :: 64 word) = NOT (mask (y div 4096))"
    using d by (intro not_mask_cong) simp
  have s: "(pool_after (x - i * 4096) :: (64 word) pool_t) = pool_after (y - i * 4096)"
    if "i < 64" for i
    using that assms by (intro pool_after_saturated) simp_all
  show ?thesis
    by (simp add: block_after_def u s pools_in_block_def)
qed

lemma unmaxed_after_0_iff: "unmaxed_pools (block_after a n) = 0 \<longleftrightarrow> 262144 \<le> n"
  by (simp add: block_after_def not_mask_eq_0_iff less_eq_div_iff_mult_less_eq)

lemma block_after_1: "(fresh_block a)\<lparr>pools := (pools (fresh_block a))[0 := pool_after 1]\<rparr> = block_after a 1"
proof -
  have "(replicate 64 (pool_init :: (64 word) pool_t))[0 := pool_after 1] =
      map (\<lambda>i. pool_after (1 - i * 4096)) [0..<64]"
  proof (rule nth_equalityI)
    fix i assume "i < length ((replicate 64 (pool_init :: (64 word) pool_t))[0 := pool_after 1])"
    then have "i < 64" by simp
    then show "(replicate 64 (pool_init :: (64 word) pool_t))[0 := pool_after 1] ! i =
        map (\<lambda>i. pool_after (1 - i * 4096)) [0..<64] ! i"
      by (cases "i = 0") (simp_all add: pool_after_0)
  qed simp
  then show ?thesis
    by (simp add: fresh_block_def block_after_def pools_in_block_def)
qed

lemma length_state_after: "length (state_after mem k) = blocks_needed k"
  by (simp add: state_after_def)

lemma nth_state_after:
  "j < blocks_needed k \<Longrightarrow> state_after mem k ! j = block_after (mem j) (k - j * 262144)"
  by (simp add: state_after_def)

lemma mp_allocate_state_after_room:
  assumes c: "k = 0 \<or> k mod 262144 \<noteq> 0"
  shows "mp_allocate L dbg 1 m (state_after mem k) =
           Inr (nth_slot L mem k, state_after mem (Suc k))"
proof -
  define q where "q = k div 262144"
  define r where "r = k mod 262144"
  have k: "k = q * 262144 + r" by (simp add: q_def r_def)
  have r: "r < 262144" by (simp add: r_def)
  have bn: "blocks_needed k = Suc q"
  proof (cases "k = 0")
    case True
    then show ?thesis by (simp add: blocks_needed_def q_def)
  next
    case False
    with c have "r \<noteq> 0" by (simp add: r_def)
    then obtain r' where r': "r = Suc r'" by (cases r) auto
    have "k - 1 = q * 262144 + r'" using k r' by simp
    moreover have "(q * 262144 + r') div 262144 = q" using r r' by (intro div_add_lt) simp
    ultimately show ?thesis by (simp add: blocks_needed_def)
  qed
  have bn': "blocks_needed (Suc k) = Suc q"
    by (simp add: blocks_needed_def q_def)
  have kr: "k - q * 262144 = r" using k by simp
  have last: "state_after mem k ! q = block_after (mem q) r"
    by (simp add: nth_state_after bn kr)
  have room: "unmaxed_pools (state_after mem k ! q) \<noteq> 0"
    using r by (simp add: last unmaxed_after_0_iff)
  have scan: "allocate_scan L (state_after mem k) (length (state_after mem k)) =
      Some (allocate_in L (state_after mem k) q)"
    using room by (simp add: length_state_after bn)
  have qlen: "q < length (state_after mem k)" by (simp add: length_state_after bn)
  have ai: "allocate_in L (state_after mem k) q =
      Inr (slot_addr L (mem q) (r div 4096) (r mod 4096),
           (state_after mem k)[q := block_after (mem q) (Suc r)])"
    using r by (intro allocate_in_after [OF qlen last]) simp
  have rm: "r mod 4096 = k mod 4096"
    by (simp add: r_def mod_mod_cancel)
  have upd: "(state_after mem k)[q := block_after (mem q) (Suc r)] = state_after mem (Suc k)"
  proof (rule nth_equalityI)
    show "length ((state_after mem k)[q := block_after (mem q) (Suc r)]) =
        length (state_after mem (Suc k))"
      by (simp add: length_state_after bn bn')
  next
    fix j assume "j < length ((state_after mem k)[q := block_after (mem q) (Suc r)])"
    then have j: "j < Suc q" by (simp add: length_state_after bn)
    show "(state_after mem k)[q := block_after (mem q) (Suc r)] ! j = state_after mem (Suc k) ! j"
    proof (cases "j = q")
      case True
      have skr: "Suc k - q * 262144 = Suc r" using k by simp
      show ?thesis using qlen by (simp add: True nth_state_after bn' skr)
    next
      case False
      with j have "Suc j \<le> q" by simp
      then have "Suc j * 262144 \<le> q * 262144" by (rule mult_le_mono1)
      then have "262144 \<le> k - j * 262144" "262144 \<le> Suc k - j * 262144" using k by simp_all
      then have "block_after (mem j) (k - j * 262144) = block_after (mem j) (Suc k - j * 262144)"
        by (rule block_after_saturated)
      with False j show ?thesis by (simp add: nth_state_after bn bn')
    qed
  qed
  show ?thesis
    by (simp add: mp_allocate_def scan ai upd nth_slot_def rm flip: q_def r_def)
qed

lemma mp_allocate_state_after_grow:
  assumes c: "0 < k" "k mod 262144 = 0" and m: "mem (blocks_needed k) \<noteq> 0"
  shows "mp_allocate L dbg 1 (mem (length (state_after mem k))) (state_after mem k) =
           Inr (nth_slot L mem k, state_after mem (Suc k))"
proof -
  define q where "q = k div 262144"
  have k: "k = q * 262144" using c(2) div_mult_mod_eq [of k 262144] by (simp add: q_def)
  have q0: "0 < q" using c k by simp
  then obtain q' where q': "q = Suc q'" by (cases q) auto
  have "k - 1 = q' * 262144 + 262143" using k q' by simp
  moreover have "(q' * 262144 + 262143) div 262144 = q'" by (intro div_add_lt) simp
  ultimately have bn: "blocks_needed k = q" by (simp add: blocks_needed_def q')
  have bn': "blocks_needed (Suc k) = Suc q"
    by (simp add: blocks_needed_def q_def)
  have full: "\<forall>i<length (state_after mem k). unmaxed_pools (state_after mem k ! i) = 0"
  proof (intro allI impI)
    fix i assume "i < length (state_after mem k)"
    then have i: "i < q" by (simp add: length_state_after bn)
    then have "Suc i \<le> q" by simp
    then have "Suc i * 262144 \<le> q * 262144" by (rule mult_le_mono1)
    then have "262144 \<le> k - i * 262144" using k by simp
    then show "unmaxed_pools (state_after mem k ! i) = 0"
      using i by (simp add: nth_state_after bn unmaxed_after_0_iff)
  qed
  have m': "mem q \<noteq> 0" using m by (simp add: bn)
  have app: "state_after mem k @ [block_after (mem q) 1] = state_after mem (Suc k)"
  proof (rule nth_equalityI)
    show "length (state_after mem k @ [block_after (mem q) 1]) = length (state_after mem (Suc k))"
      by (simp add: length_state_after bn bn')
  next
    fix j assume "j < length (state_after mem k @ [block_after (mem q) 1])"
    then have j: "j < Suc q" by (simp add: length_state_after bn)
    show "(state_after mem k @ [block_after (mem q) 1]) ! j = state_after mem (Suc k) ! j"
    proof (cases "j = q")
      case True
      have sk: "Suc k - q * 262144 = 1" using k by simp
      show ?thesis by (simp add: True nth_append length_state_after bn nth_state_after bn' sk)
    next
      case False
      with j have jq: "j < q" by simp
      then have "Suc j \<le> q" by simp
      then have "Suc j * 262144 \<le> q * 262144" by (rule mult_le_mono1)
      then have "262144 \<le> k - j * 262144" "262144 \<le> Suc k - j * 262144" using k by simp_all
      then have "block_after (mem j) (k - j * 262144) = block_after (mem j) (Suc k - j * 262144)"
        by (rule block_after_saturated)
      with jq show ?thesis by (simp add: nth_append length_state_after nth_state_after bn bn')
    qed
  qed
  have "k mod 4096 = q * 64 * 4096 mod 4096" using k by simp
  then have k4: "k mod 4096 = 0" by simp
  have ns: "nth_slot L mem k = slot_addr L (mem q) 0 0"
    using c by (simp add: nth_slot_def q_def k4)
  have no: "\<not> (dbg \<and> (1::nat) \<noteq> 1)" by simp
  from mp_allocate_new_block [OF full no, of L "mem q"] m'
  have "mp_allocate L dbg 1 (mem q) (state_after mem k) =
      Inr (slot_addr L (mem q) 0 0, state_after mem k @ [block_after (mem q) 1])"
    by (simp only: if_False block_after_1)
  then show ?thesis
    by (simp only: length_state_after bn app ns)
qed

lemma mp_allocate_state_after:
  assumes "\<forall>j<blocks_needed (Suc k). mem j \<noteq> 0"
  shows "mp_allocate L dbg 1 (mem (length (state_after mem k))) (state_after mem k) =
           Inr (nth_slot L mem k, state_after mem (Suc k))"
proof (cases "k = 0 \<or> k mod 262144 \<noteq> 0")
  case True
  then show ?thesis by (rule mp_allocate_state_after_room)
next
  case False
  then have c: "0 < k" "k mod 262144 = 0" by simp_all
  have "blocks_needed k < blocks_needed (Suc k)"
  proof -
    have "k = k div 262144 * 262144" using c(2) div_mult_mod_eq [of k 262144] by simp
    then obtain q where k: "k = q * 262144" ..
    with c obtain q' where q': "q = Suc q'" by (cases q) auto
    have "k - 1 = q' * 262144 + 262143" using k q' by simp
    moreover have "(q' * 262144 + 262143) div 262144 = q'" by (intro div_add_lt) simp
    ultimately have "blocks_needed k = q" by (simp add: blocks_needed_def q')
    moreover have "blocks_needed (Suc k) = Suc q" by (simp add: blocks_needed_def k)
    ultimately show ?thesis by simp
  qed
  with assms have "mem (blocks_needed k) \<noteq> 0" by simp
  with c show ?thesis by (rule mp_allocate_state_after_grow)
qed

lemma blocks_needed_mono: "k \<le> k' \<Longrightarrow> blocks_needed k \<le> blocks_needed k'"
  by (simp add: blocks_needed_def div_le_mono)

lemma mp_allocate_n_after:
  "\<forall>j<blocks_needed (k + n). mem j \<noteq> 0 \<Longrightarrow>
   mp_allocate_n L dbg mem n (state_after mem k) =
     Inr (map (nth_slot L mem) [k..<k + n], state_after mem (k + n))"
proof (induction n arbitrary: k)
  case 0
  then show ?case by simp
next
  case (Suc n)
  have "blocks_needed (Suc k) \<le> blocks_needed (k + Suc n)"
    by (rule blocks_needed_mono) simp
  with Suc.prems have a: "\<forall>j<blocks_needed (Suc k). mem j \<noteq> 0" by auto
  from Suc.prems have b: "\<forall>j<blocks_needed (Suc k + n). mem j \<noteq> 0" by simp
  have e: "[k..<k + Suc n] = k # [Suc k..<Suc k + n]"
    by (simp add: upt_conv_Cons)
  have st: "mp_allocate_n L dbg mem (Suc n) (state_after mem k) =
      (case mp_allocate_n L dbg mem n (state_after mem (Suc k)) of
         Inl e \<Rightarrow> Inl e
       | Inr (ps, st'') \<Rightarrow> Inr (nth_slot L mem k # ps, st''))"
    by (simp only: mp_allocate_n.simps mp_allocate_state_after [OF a] sum.case prod.case)
  show ?case
    by (simp only: st Suc.IH [OF b] e sum.case prod.case list.map) simp
qed

lemma multi_pool_state: "m \<noteq> 0 \<Longrightarrow> multi_pool m = Inr [fresh_block m]"
  by (simp add: multi_pool_def new_block_def fresh_block_def)

lemma state_after_0: "state_after mem 0 = [fresh_block (mem 0)]"
  by (simp add: state_after_def blocks_needed_def fresh_block_eq_after)

section \<open>Locating the owner of a pointer\<close>

lemma byte_diff_le: "q \<le> p \<Longrightarrow> p < 2 ^ 64 \<Longrightarrow> byte_diff p q = p - q"
proof -
  assume a: "q \<le> p" "p < 2 ^ 64"
  have e: "int p - int q = int (p - q)" using a by simp
  have lt: "p - q < 2 ^ 64" using a by arith
  have "int (p - q) mod 2 ^ 64 = int ((p - q) mod 2 ^ 64)"
    by (simp only: zmod_int of_nat_numeral of_nat_power)
  also have "(p - q) mod 2 ^ 64 = p - q" using lt by (rule mod_less)
  finally show ?thesis by (simp only: byte_diff_def e nat_int)
qed

lemma byte_diff_gt: "p < q \<Longrightarrow> q \<le> 2 ^ 64 \<Longrightarrow> byte_diff p q = 2 ^ 64 - (q - p)"
proof -
  assume a: "p < q" "q \<le> 2 ^ 64"
  define d where "d = q - p"
  have d: "0 < d" "d \<le> 2 ^ 64" "int p - int q = - int d" using a by (simp_all add: d_def)
  define c :: nat where "c = 2 ^ 64 - d"
  have c: "c < 2 ^ 64" "int c = 2 ^ 64 - int d" using d by (simp_all add: c_def)
  have "(- int d) mod 2 ^ 64 = (- int d + 2 ^ 64) mod 2 ^ 64"
    by (simp only: mod_add_self2)
  also have "- int d + 2 ^ 64 = int c" using c by simp
  also have "int c mod 2 ^ 64 = int (c mod 2 ^ 64)"
    by (simp only: zmod_int of_nat_numeral of_nat_power)
  also have "c mod 2 ^ 64 = c" using c(1) by (rule mod_less)
  finally have "(int p - int q) mod 2 ^ 64 = int c" by (simp only: d)
  then show ?thesis by (simp only: byte_diff_def nat_int c_def d_def)
qed

lemma slot_offset_lt:
  assumes "layout_ok L" and "idx < 4096"
  shows "data_offset L + idx * sizeof_T L < sizeof_pool L"
proof -
  have pos: "0 < sizeof_T L" and le: "data_offset L + 4096 * sizeof_T L \<le> sizeof_pool L"
    using assms(1) by (simp_all add: layout_ok_def)
  have "idx * sizeof_T L < 4096 * sizeof_T L"
    using assms(2) pos by (rule mult_less_mono1)
  with le show ?thesis by linarith
qed

lemma slot_addr_eq:
  "slot_addr L a i idx = a + (i * sizeof_pool L + (data_offset L + idx * sizeof_T L))"
  by (simp add: slot_addr_def elem_addr_def data_addr_def pool_addr_def)

lemma slot_addr_in_block:
  assumes "layout_ok L" and "i < 64" and "idx < 4096"
  shows "a \<le> slot_addr L a i idx" and "slot_addr L a i idx < a + 64 * sizeof_pool L"
proof -
  show "a \<le> slot_addr L a i idx" by (simp only: slot_addr_eq le_add1)
  have "Suc i \<le> 64" using assms(2) by simp
  then have "Suc i * sizeof_pool L \<le> 64 * sizeof_pool L" by (rule mult_le_mono1)
  then have "i * sizeof_pool L + sizeof_pool L \<le> 64 * sizeof_pool L" by simp
  with slot_offset_lt [OF assms(1,3)]
  show "slot_addr L a i idx < a + 64 * sizeof_pool L"
    unfolding slot_addr_eq by linarith
qed

lemma pool_index_own:
  assumes "layout_ok L" and "i < 64" and "idx < 4096" and "ptr blk + 64 * sizeof_pool L \<le> 2 ^ 64"
  shows "pool_index L (slot_addr L (ptr blk) i idx) blk = i"
proof -
  let ?p = "slot_addr L (ptr blk) i idx"
  let ?o = "data_offset L + idx * sizeof_T L"
  have lt: "?p < 2 ^ 64"
    using slot_addr_in_block(2) [OF assms(1-3), of "ptr blk"] assms(4) by linarith
  have le: "ptr blk \<le> ?p" by (rule slot_addr_in_block(1) [OF assms(1-3)])
  have "byte_diff ?p (ptr blk) = ?p - ptr blk" using le lt by (rule byte_diff_le)
  also have "\<dots> = i * sizeof_pool L + ?o" by (simp only: slot_addr_eq add_diff_cancel_left')
  finally have "pool_index L ?p blk = (i * sizeof_pool L + ?o) div sizeof_pool L"
    by (simp only: pool_index_def)
  also have "\<dots> = i" using slot_offset_lt [OF assms(1,3)] by (rule div_add_lt)
  finally show ?thesis .
qed

lemma pool_index_other:
  assumes ok: "layout_ok L" and i: "i < 64" and idx: "idx < 4096"
    and fit: "a + 64 * sizeof_pool L \<le> 2 ^ 64" "ptr blk + 64 * sizeof_pool L \<le> 2 ^ 64"
    and dis: "a + 64 * sizeof_pool L \<le> ptr blk \<or> ptr blk + 64 * sizeof_pool L \<le> a"
  shows "\<not> pool_index L (slot_addr L a i idx) blk < 64"
proof -
  let ?p = "slot_addr L a i idx"
  define B where "B = 64 * sizeof_pool L"
  define W :: nat where "W = 2 ^ 64"
  have pos: "0 < sizeof_pool L" using slot_offset_lt [OF ok idx] by simp
  have lo: "a \<le> ?p" and hi: "?p < a + B"
    using slot_addr_in_block [OF ok i idx] by (simp_all only: B_def)
  have fit': "a + B \<le> W" "ptr blk + B \<le> W" using fit by (simp_all only: B_def W_def)
  have dis': "a + B \<le> ptr blk \<or> ptr blk + B \<le> a" using dis by (simp only: B_def)
  have "B \<le> byte_diff ?p (ptr blk)"
  proof (cases "ptr blk \<le> ?p")
    case True
    have "?p < W" using hi fit' by linarith
    then have "byte_diff ?p (ptr blk) = ?p - ptr blk"
      using True by (simp only: W_def byte_diff_le)
    moreover have "ptr blk + B \<le> a" using dis' True hi by linarith
    ultimately show ?thesis using lo by linarith
  next
    case False
    then have lt: "?p < ptr blk" by simp
    have "ptr blk \<le> W" using fit' by linarith
    with lt have "byte_diff ?p (ptr blk) = W - (ptr blk - ?p)"
      by (simp only: W_def byte_diff_gt)
    then show ?thesis using fit' lt by linarith
  qed
  then have "64 * sizeof_pool L \<le> byte_diff ?p (ptr blk)" by (simp only: B_def)
  then have "64 \<le> byte_diff ?p (ptr blk) div sizeof_pool L"
    using pos by (simp only: less_eq_div_iff_mult_less_eq)
  then show ?thesis by (simp only: pool_index_def not_less)
qed

lemma disjoint_blocksD:
  assumes "disjoint_blocks L st" and "j < length st" and "j' < length st" and "j \<noteq> j'"
  shows "ptr (st ! j) + 64 * sizeof_pool L \<le> 2 ^ 64"
    and "ptr (st ! j) + 64 * sizeof_pool L \<le> ptr (st ! j') \<or>
         ptr (st ! j') + 64 * sizeof_pool L \<le> ptr (st ! j)"
proof -
  show "ptr (st ! j) + 64 * sizeof_pool L \<le> 2 ^ 64"
    using assms(1,2) unfolding disjoint_blocks_def by blast
  show "ptr (st ! j) + 64 * sizeof_pool L \<le> ptr (st ! j') \<or>
         ptr (st ! j') + 64 * sizeof_pool L \<le> ptr (st ! j)"
  proof (cases "j' < j")
    case True
    with assms(1,2) show ?thesis unfolding disjoint_blocks_def by blast
  next
    case False
    with assms(4) have "j < j'" by simp
    with assms(1,3) show ?thesis unfolding disjoint_blocks_def by blast
  qed
qed

lemma disjoint_blocks_fit:
  "disjoint_blocks L st \<Longrightarrow> j < length st \<Longrightarrow> ptr (st ! j) + 64 * sizeof_pool L \<le> 2 ^ 64"
  unfolding disjoint_blocks_def by blast

lemma deallocate_scan_owner:
  assumes "j < k" and "\<forall>j'<k. j' \<noteq> j \<longrightarrow> \<not> pool_index L p (st ! j') < pools_in_block"
    and "pool_index L p (st ! j) < pools_in_block"
  shows "deallocate_scan L dbg p st k = deallocate_in L dbg p st j"
  using assms
proof (induction k)
  case 0
  then show ?case by simp
next
  case (Suc k)
  show ?case
  proof (cases "j = k")
    case True
    with Suc.prems show ?thesis by simp
  next
    case False
    with Suc.prems have "j < k" by simp
    moreover from Suc.prems False have "\<not> pool_index L p (st ! k) < pools_in_block" by simp
    ultimately show ?thesis using Suc by simp
  qed
qed

lemma pool_deallocate_slot:
  assumes "layout_ok L" and "idx < 4096"
  shows "pool_deallocate (sizeof_T L) (data_addr L a i) (slot_addr L a i idx) pl =
           Inr (slot_released idx pl)"
proof -
  have pos: "0 < sizeof_T L" using assms(1) by (simp add: layout_ok_def)
  have a: "idx < LENGTH(64) * LENGTH(64)" using assms(2) by simp
  have b: "LENGTH(64) * LENGTH(64) \<le> (2::nat) ^ 32" by simp
  show ?thesis
    unfolding slot_addr_def pool_deallocate_elem [OF pos a b] slot_released_def Let_def
    by simp
qed

lemma byte_diff_pool:
  assumes "layout_ok L" and "i < 64" and "idx < 4096" and "a + 64 * sizeof_pool L \<le> 2 ^ 64"
  shows "byte_diff (slot_addr L a i idx) (pool_addr L a i) < sizeof_pool L"
proof -
  let ?p = "slot_addr L a i idx"
  have lt: "?p < 2 ^ 64"
    using slot_addr_in_block(2) [OF assms(1-3), of a] assms(4) by linarith
  have e: "?p = pool_addr L a i + (data_offset L + idx * sizeof_T L)"
    by (simp add: slot_addr_eq pool_addr_def)
  then have le: "pool_addr L a i \<le> ?p" by simp
  have "byte_diff ?p (pool_addr L a i) = ?p - pool_addr L a i" using le lt by (rule byte_diff_le)
  also have "\<dots> = data_offset L + idx * sizeof_T L" using e by simp
  finally show ?thesis using slot_offset_lt [OF assms(1,3)] by simp
qed

lemma deallocate_in_slot:
  assumes ok: "layout_ok L" and i: "i < 64" and idx: "idx < 4096"
    and fit: "ptr (st ! j) + 64 * sizeof_pool L \<le> 2 ^ 64"
  shows "deallocate_in L dbg (slot_addr L (ptr (st ! j)) i idx) st j =
           Inr (st[j := block_released i idx (st ! j)])"
proof -
  have pi: "pool_index L (slot_addr L (ptr (st ! j)) i idx) (st ! j) = i"
    by (rule pool_index_own [OF ok i idx fit])
  have bd: "byte_diff (slot_addr L (ptr (st ! j)) i idx) (pool_addr L (ptr (st ! j)) i) < sizeof_pool L"
    by (rule byte_diff_pool [OF ok i idx fit])
  show ?thesis
    unfolding deallocate_in_def Let_def pi pool_deallocate_slot [OF ok idx] block_released_def
    using bd by simp
qed

lemma mp_deallocate_live:
  assumes ok: "layout_ok L" and dis: "disjoint_blocks L st" and j: "j < length st"
    and i: "i < 64" and idx: "idx < 4096"
  shows "mp_deallocate L dbg (slot_addr L (ptr (st ! j)) i idx) n st =
           Inr (st[j := block_released i idx (st ! j)])"
proof -
  let ?p = "slot_addr L (ptr (st ! j)) i idx"
  have fit: "ptr (st ! j) + 64 * sizeof_pool L \<le> 2 ^ 64"
    by (rule disjoint_blocks_fit [OF dis j])
  have own: "pool_index L ?p (st ! j) < pools_in_block"
    using pool_index_own [OF ok i idx fit] i by (simp add: pools_in_block_def)
  have oth: "\<forall>j'<length st. j' \<noteq> j \<longrightarrow> \<not> pool_index L ?p (st ! j') < pools_in_block"
  proof (intro allI impI)
    fix j' assume j': "j' < length st" "j' \<noteq> j"
    have f': "ptr (st ! j') + 64 * sizeof_pool L \<le> 2 ^ 64"
      by (rule disjoint_blocks_fit [OF dis j'(1)])
    have d: "ptr (st ! j) + 64 * sizeof_pool L \<le> ptr (st ! j') \<or>
        ptr (st ! j') + 64 * sizeof_pool L \<le> ptr (st ! j)"
      using disjoint_blocksD(2) [OF dis j j'(1)] j'(2) by blast
    show "\<not> pool_index L ?p (st ! j') < pools_in_block"
      using pool_index_other [OF ok i idx fit f' d] by (simp add: pools_in_block_def)
  qed
  show ?thesis
    unfolding mp_deallocate_def deallocate_scan_owner [OF j oth own]
    by (rule deallocate_in_slot [OF ok i idx fit])
qed

section \<open>Claims about the multi-pool\<close>

text \<open>
  C5, as the claim states it, fails: with every slot of the only block allocated and
  \<^verbatim>\<open>malloc\<close> returning the null pointer, \<^verbatim>\<open>allocate(1)\<close> neither returns a slot nor fails
  with the state unchanged.  The block record with the null pointer has been appended,
  and the fault is the write through that pointer.
\<close>

theorem malloc_failure_not_surfaced:
  "mp_allocate \<lparr>sizeof_T = 8, data_offset = 520, sizeof_pool = 33288\<rparr> False 1 0
      [exhausted_block 65536] =
     Inl (Null_dereference,
          [exhausted_block 65536, \<lparr>ptr = 0, unmaxed_pools = NOT 0, pools = []\<rparr>]) \<and>
   [exhausted_block 65536, \<lparr>ptr = 0, unmaxed_pools = NOT 0, pools = []\<rparr>] \<noteq>
     [exhausted_block 65536]"
  by (simp add: mp_allocate_def new_block_def exhausted_block_def)

text \<open>
  C5, amended.  When no block has capacity, \<^verbatim>\<open>allocate(1)\<close> with a non-null result \<open>m\<close> of
  \<^verbatim>\<open>malloc\<close> appends one block at \<open>m\<close> and returns the address of slot 0 of its pool 0.
  With the null pointer no failure is surfaced: the source does not test the result of
  \<^verbatim>\<open>malloc\<close>, appends the block record and writes through the null pointer.
\<close>

theorem allocate_new_block_outcome:
  assumes "\<forall>i<length st. unmaxed_pools (st ! i) = 0"
  shows "(m \<noteq> 0 \<longrightarrow>
            (\<exists>blk. mp_allocate L False 1 m st = Inr (slot_addr L m 0 0, st @ [blk]) \<and>
                   ptr blk = m \<and> unmaxed_pools blk = NOT 0)) \<and>
         (m = 0 \<longrightarrow>
            mp_allocate L False 1 m st =
              Inl (Null_dereference, st @ [\<lparr>ptr = 0, unmaxed_pools = NOT 0, pools = []\<rparr>]))"
  using mp_allocate_new_block [OF assms, of False 1 L m]
  by (cases "m = 0") (simp_all add: fresh_block_def)

theorem allocate_new_block_outcome_witness:
  "(\<exists>blk. mp_allocate \<lparr>sizeof_T = 8, data_offset = 520, sizeof_pool = 33288\<rparr> False 1 4194304
            [exhausted_block 65536] =
           Inr (slot_addr \<lparr>sizeof_T = 8, data_offset = 520, sizeof_pool = 33288\<rparr> 4194304 0 0,
                [exhausted_block 65536] @ [blk]) \<and>
          ptr blk = 4194304 \<and> unmaxed_pools blk = NOT 0)"
proof -
  have h: "\<forall>i<length [exhausted_block 65536]. unmaxed_pools ([exhausted_block 65536] ! i) = 0"
    by (simp add: exhausted_block_def)
  from allocate_new_block_outcome [OF h, of 4194304 "\<lparr>sizeof_T = 8, data_offset = 520, sizeof_pool = 33288\<rparr>"]
  show ?thesis by simp
qed

section \<open>States with a single block\<close>

lemma state_after_single:
  "k \<le> 262144 \<Longrightarrow> state_after mem k = [block_after (mem 0) k]"
proof -
  assume "k \<le> 262144"
  then have "(k - 1) div 262144 = 0" by simp
  then show ?thesis by (simp add: state_after_def blocks_needed_def)
qed

text \<open>
  C8. A multi-pool is constructed and 4095 slots are allocated: bit 0 of \<^verbatim>\<open>unmaxed_pools\<close> of
  the first block is still set.  Allocation number 4096 fills pool 0 of that block and
  clears the bit.  Allocation number 4097 returns an address inside the \<^verbatim>\<open>data\<close> array of
  pool 1 of the same (and only) block.
\<close>

theorem fill_first_pool:
  assumes "mem 0 \<noteq> 0" and "layout_ok L"
  shows "\<exists>st0 ps st p st' q st''.
           multi_pool (mem 0) = Inr st0 \<and>
           mp_allocate_n L dbg mem 4095 st0 = Inr (ps, st) \<and>
           bit (unmaxed_pools (st ! 0)) 0 \<and>
           mp_allocate L dbg 1 (mem (length st)) st = Inr (p, st') \<and>
           pool_full (pools (st' ! 0) ! 0) \<and>
           \<not> bit (unmaxed_pools (st' ! 0)) 0 \<and>
           mp_allocate L dbg 1 (mem (length st')) st' = Inr (q, st'') \<and>
           length st'' = 1 \<and>
           data_addr L (ptr (st'' ! 0)) 1 \<le> q \<and>
           q < data_addr L (ptr (st'' ! 0)) 1 + 4096 * sizeof_T L"
proof -
  have c: "multi_pool (mem 0) = Inr (state_after mem 0)"
    using assms(1) by (simp add: multi_pool_state state_after_0)
  have b: "blocks_needed (0 + 4095) = 1" by (simp add: blocks_needed_def)
  have n: "mp_allocate_n L dbg mem 4095 (state_after mem 0) =
      Inr (map (nth_slot L mem) [0..<0 + 4095], state_after mem (0 + 4095))"
    by (rule mp_allocate_n_after) (use assms(1) b in simp)
  have a1: "mp_allocate L dbg 1 (mem (length (state_after mem 4095))) (state_after mem 4095) =
      Inr (nth_slot L mem 4095, state_after mem (Suc 4095))"
    by (rule mp_allocate_state_after_room) simp
  have a2: "mp_allocate L dbg 1 (mem (length (state_after mem 4096))) (state_after mem 4096) =
      Inr (nth_slot L mem 4096, state_after mem (Suc 4096))"
    by (rule mp_allocate_state_after_room) simp
  have s5: "state_after mem 4095 = [block_after (mem 0) 4095]"
    and s6: "state_after mem 4096 = [block_after (mem 0) 4096]"
    and s7: "state_after mem 4097 = [block_after (mem 0) 4097]"
    by (simp_all add: state_after_single)
  have u5: "bit (unmaxed_pools (block_after (mem 0) 4095)) 0"
    by (simp add: block_after_def bit_not_mask_word)
  have u6: "\<not> bit (unmaxed_pools (block_after (mem 0) 4096)) 0"
    by (simp add: block_after_def bit_not_mask_word)
  have f6: "pool_full (pools (block_after (mem 0) 4096) ! 0)"
    by (simp add: block_after_def pools_in_block_def pool_full_after)
  have q: "nth_slot L mem 4096 = data_addr L (mem 0) 1"
    by (simp add: nth_slot_def slot_addr_def elem_addr_def)
  have pos: "0 < sizeof_T L" using assms(2) by (simp add: layout_ok_def)
  have p7: "ptr (block_after (mem 0) 4097) = mem 0" by (simp add: block_after_def)
  show ?thesis
    apply (rule exI [of _ "state_after mem 0"])
    apply (rule exI [of _ "map (nth_slot L mem) [0..<0 + 4095]"])
    apply (rule exI [of _ "state_after mem 4095"])
    apply (rule exI [of _ "nth_slot L mem 4095"])
    apply (rule exI [of _ "state_after mem 4096"])
    apply (rule exI [of _ "nth_slot L mem 4096"])
    apply (rule exI [of _ "state_after mem 4097"])
    using c n a1 a2 u5 u6 f6 pos
    apply (simp add: s5 s6 s7 q p7)
    done
qed

theorem fill_first_pool_witness:
  "\<exists>st0 ps st p st' q st''.
     multi_pool 65536 = Inr st0 \<and>
     mp_allocate_n \<lparr>sizeof_T = 8, data_offset = 520, sizeof_pool = 33288\<rparr> False
       (\<lambda>j. 65536 + j * 4194304) 4095 st0 = Inr (ps, st) \<and>
     bit (unmaxed_pools (st ! 0)) 0 \<and>
     mp_allocate \<lparr>sizeof_T = 8, data_offset = 520, sizeof_pool = 33288\<rparr> False 1
       (65536 + length st * 4194304) st = Inr (p, st') \<and>
     pool_full (pools (st' ! 0) ! 0) \<and>
     \<not> bit (unmaxed_pools (st' ! 0)) 0 \<and>
     mp_allocate \<lparr>sizeof_T = 8, data_offset = 520, sizeof_pool = 33288\<rparr> False 1
       (65536 + length st' * 4194304) st' = Inr (q, st'') \<and>
     length st'' = 1 \<and>
     data_addr \<lparr>sizeof_T = 8, data_offset = 520, sizeof_pool = 33288\<rparr> (ptr (st'' ! 0)) 1 \<le> q \<and>
     q < data_addr \<lparr>sizeof_T = 8, data_offset = 520, sizeof_pool = 33288\<rparr> (ptr (st'' ! 0)) 1 + 4096 * 8"
proof -
  have b: "layout_ok \<lparr>sizeof_T = 8, data_offset = 520, sizeof_pool = 33288\<rparr>"
    by (simp add: layout_ok_def)
  from fill_first_pool [of "\<lambda>j. 65536 + j * 4194304"
      "\<lparr>sizeof_T = 8, data_offset = 520, sizeof_pool = 33288\<rparr>" False] b
  show ?thesis by simp
qed

section \<open>The owner of a pointer: ranges and bits\<close>

lemma slot_addr_in_data:
  assumes "layout_ok L" and "idx < 4096"
  shows "data_addr L a i \<le> slot_addr L a i idx"
    and "slot_addr L a i idx < data_addr L a i + 4096 * sizeof_T L"
proof -
  have pos: "0 < sizeof_T L" using assms(1) by (simp add: layout_ok_def)
  show "data_addr L a i \<le> slot_addr L a i idx"
    by (simp add: slot_addr_def elem_addr_def)
  have "idx * sizeof_T L < 4096 * sizeof_T L"
    using assms(2) pos by (rule mult_less_mono1)
  then show "slot_addr L a i idx < data_addr L a i + 4096 * sizeof_T L"
    unfolding slot_addr_def elem_addr_def by linarith
qed

lemma pool_index_owner_iff:
  assumes ok: "layout_ok L" and dis: "disjoint_blocks L st" and j: "j < length st"
    and i: "i < 64" and idx: "idx < 4096" and j': "j' < length st"
  shows "pool_index L (slot_addr L (ptr (st ! j)) i idx) (st ! j') < pools_in_block \<longleftrightarrow> j' = j"
proof (cases "j' = j")
  case True
  have fit: "ptr (st ! j) + 64 * sizeof_pool L \<le> 2 ^ 64"
    by (rule disjoint_blocks_fit [OF dis j])
  show ?thesis
    using pool_index_own [OF ok i idx fit] i True by (simp add: pools_in_block_def)
next
  case False
  have fit: "ptr (st ! j) + 64 * sizeof_pool L \<le> 2 ^ 64"
    by (rule disjoint_blocks_fit [OF dis j])
  have f': "ptr (st ! j') + 64 * sizeof_pool L \<le> 2 ^ 64"
    by (rule disjoint_blocks_fit [OF dis j'])
  have d: "ptr (st ! j) + 64 * sizeof_pool L \<le> ptr (st ! j') \<or>
      ptr (st ! j') + 64 * sizeof_pool L \<le> ptr (st ! j)"
    using disjoint_blocksD(2) [OF dis j j'] False by blast
  show ?thesis
    using pool_index_other [OF ok i idx fit f' d] False by (simp add: pools_in_block_def)
qed

lemma bit_slot_released:
  assumes "pool_wf pl" and "idx < 4096"
  shows "bit (unallocated_slots (slot_released idx pl) ! (idx div 64)) (idx mod 64)"
proof -
  have "idx div 64 < 64" using assms(2) by simp
  then have "idx div 64 < length (unallocated_slots pl)"
    using assms(1) by (simp add: pool_wf_def)
  then show ?thesis
    by (simp add: slot_released_def Let_def bit_set_bit_w)
qed

text \<open>
  C4. For a pointer \<open>p\<close> to slot \<open>idx\<close> of pool \<open>i\<close> of block \<open>j\<close> (every pointer that
  \<^verbatim>\<open>allocate\<close> returns has this form), in a state whose blocks do not overlap:
  the test \<^verbatim>\<open>pool_idx < pools_in_block\<close> of the scan succeeds for block \<open>j\<close> and for no
  other block, so the scan from the tail stops at the owner; there \<^verbatim>\<open>pool_idx\<close> is \<open>i\<close>
  and \<open>p\<close> lies in the \<^verbatim>\<open>data\<close> array of that pool; \<^verbatim>\<open>deallocate(p, n)\<close> returns, with or
  without assertions; the pool of the owner is replaced by what \<^verbatim>\<open>pool_t::deallocate\<close>
  makes of it, in which the bit of the slot is set; bit \<open>i\<close> of \<^verbatim>\<open>unmaxed_pools\<close> of the
  owner is set; every other pool of the owner and every other block are unchanged.
\<close>

theorem deallocate_finds_owner:
  assumes "layout_ok L" and "disjoint_blocks L st" and "j < length st" and "block_wf (st ! j)"
    and "i < 64" and "idx < 4096" and "p = slot_addr L (ptr (st ! j)) i idx"
  shows "\<exists>st'. mp_deallocate L dbg p n st = Inr st' \<and>
           (\<forall>j'<length st. pool_index L p (st ! j') < pools_in_block \<longleftrightarrow> j' = j) \<and>
           pool_index L p (st ! j) = i \<and>
           data_addr L (ptr (st ! j)) i \<le> p \<and>
           p < data_addr L (ptr (st ! j)) i + 4096 * sizeof_T L \<and>
           length st' = length st \<and>
           (\<forall>j'<length st. j' \<noteq> j \<longrightarrow> st' ! j' = st ! j') \<and>
           ptr (st' ! j) = ptr (st ! j) \<and>
           unmaxed_pools (st' ! j) = set_bit i (unmaxed_pools (st ! j)) \<and>
           length (pools (st' ! j)) = length (pools (st ! j)) \<and>
           (\<forall>i'<64. i' \<noteq> i \<longrightarrow> pools (st' ! j) ! i' = pools (st ! j) ! i') \<and>
           pool_deallocate (sizeof_T L) (data_addr L (ptr (st ! j)) i) p (pools (st ! j) ! i) =
             Inr (pools (st' ! j) ! i) \<and>
           bit (unallocated_slots (pools (st' ! j) ! i) ! (idx div 64)) (idx mod 64)"
proof -
  have fit: "ptr (st ! j) + 64 * sizeof_pool L \<le> 2 ^ 64"
    by (rule disjoint_blocks_fit [OF assms(2,3)])
  have len: "length (pools (st ! j)) = 64" and wf: "pool_wf (pools (st ! j) ! i)"
    using assms(4,5) by (simp_all add: block_wf_def pools_in_block_def)
  have d: "mp_deallocate L dbg p n st = Inr (st[j := block_released i idx (st ! j)])"
    unfolding assms(7) by (rule mp_deallocate_live [OF assms(1,2,3,5,6)])
  have own: "\<forall>j'<length st. pool_index L p (st ! j') < pools_in_block \<longleftrightarrow> j' = j"
    unfolding assms(7) using pool_index_owner_iff [OF assms(1,2,3,5,6)] by blast
  have pi: "pool_index L p (st ! j) = i"
    unfolding assms(7) by (rule pool_index_own [OF assms(1,5,6) fit])
  have rng: "data_addr L (ptr (st ! j)) i \<le> p" "p < data_addr L (ptr (st ! j)) i + 4096 * sizeof_T L"
    unfolding assms(7) by (rule slot_addr_in_data [OF assms(1,6)])+
  have pd: "pool_deallocate (sizeof_T L) (data_addr L (ptr (st ! j)) i) p (pools (st ! j) ! i) =
      Inr (slot_released idx (pools (st ! j) ! i))"
    unfolding assms(7) by (rule pool_deallocate_slot [OF assms(1,6)])
  have b: "bit (unallocated_slots (slot_released idx (pools (st ! j) ! i)) ! (idx div 64)) (idx mod 64)"
    by (rule bit_slot_released [OF wf assms(6)])
  show ?thesis
    apply (rule exI [of _ "st[j := block_released i idx (st ! j)]"])
    using d own pi rng pd b assms(3,5) len
    apply (simp add: block_released_def set_bit_w_eq_set_bit)
    done
qed

theorem deallocate_finds_owner_witness:
  "\<exists>st'. mp_deallocate \<lparr>sizeof_T = 8, data_offset = 520, sizeof_pool = 33288\<rparr> True 99384 1
            [exhausted_block 65536, exhausted_block 4194304] = Inr st' \<and>
         pool_index \<lparr>sizeof_T = 8, data_offset = 520, sizeof_pool = 33288\<rparr> 99384
            (exhausted_block 65536) = 1 \<and>
         length st' = 2 \<and>
         st' ! 1 = exhausted_block 4194304 \<and>
         unmaxed_pools (st' ! 0) = set_bit 1 0 \<and>
         bit (unallocated_slots (pools (st' ! 0) ! 1) ! 0) 5"
proof -
  let ?L = "\<lparr>sizeof_T = 8, data_offset = 520, sizeof_pool = 33288\<rparr>"
  let ?st = "[exhausted_block 65536, exhausted_block 4194304]"
  have ok: "layout_ok ?L" by (simp add: layout_ok_def)
  have dis: "disjoint_blocks ?L ?st"
    by (simp add: disjoint_blocks_def exhausted_block_def less_Suc_eq)
  have j: "0 < length ?st" by simp
  have wf: "block_wf (?st ! 0)"
    by (simp add: block_wf_def exhausted_block_def pools_in_block_def pool_wf_def)
  have i: "(1::nat) < 64" by simp
  have idx: "(5::nat) < 4096" by simp
  have p: "99384 = slot_addr ?L (ptr (?st ! 0)) 1 5"
    by (simp add: slot_addr_def elem_addr_def data_addr_def pool_addr_def exhausted_block_def)
  from deallocate_finds_owner [OF ok dis j wf i idx p, of True 1]
  obtain st' where r:
    "mp_deallocate ?L True 99384 1 ?st = Inr st'"
    "pool_index ?L 99384 (?st ! 0) = 1"
    "length st' = length ?st"
    "\<forall>j'<length ?st. j' \<noteq> 0 \<longrightarrow> st' ! j' = ?st ! j'"
    "unmaxed_pools (st' ! 0) = set_bit 1 (unmaxed_pools (?st ! 0))"
    "bit (unallocated_slots (pools (st' ! 0) ! 1) ! (5 div 64)) (5 mod 64)"
    by blast
  from r(4) have "st' ! 1 = ?st ! 1" by simp
  with r show ?thesis
    by (intro exI [of _ st']) (simp add: exhausted_block_def)
qed

section \<open>Deallocation from an exhausted word\<close>

lemma set_bit_w_0_neq_ones: "t < 64 \<Longrightarrow> set_bit_w (0 :: 64 word) t \<noteq> NOT 0"
proof
  assume t: "t < 64" and e: "set_bit_w (0 :: 64 word) t = NOT 0"
  define t' where "t' = (if t = 0 then 1 else 0 :: nat)"
  have "t' \<noteq> t" "t' < 64" by (simp_all add: t'_def)
  then have "\<not> bit (set_bit_w (0 :: 64 word) t) t'" by (simp add: bit_set_bit_w)
  moreover have "bit (NOT 0 :: 64 word) t'" using \<open>t' < 64\<close> by (simp add: bit_simps)
  ultimately show False using e by simp
qed

lemma slots_after_exhausted:
  "k < 64 \<Longrightarrow> 64 * Suc k \<le> m \<Longrightarrow> unallocated_slots (pool_after m :: (64 word) pool_t) ! k = 0"
  by (simp add: pool_after_def not_mask_eq_0_iff)

lemma released_unused_words:
  assumes "idx < 4096" and "64 * Suc (idx div 64) \<le> m"
  shows "unused_words (slot_released idx (pool_after m)) = NOT (mask (m div 64))"
proof -
  have k: "idx div 64 < 64" using assms(1) by simp
  have z: "unallocated_slots (pool_after m :: (64 word) pool_t) ! (idx div 64) = 0"
    by (rule slots_after_exhausted [OF k assms(2)])
  have "set_bit_w (0 :: 64 word) (idx mod 64) \<noteq> NOT 0"
    by (rule set_bit_w_0_neq_ones) simp
  then show ?thesis
    by (simp add: slot_released_def z Let_def) (simp add: pool_after_def)
qed

lemma released_pool_still_full:
  "idx < 4096 \<Longrightarrow> pool_full (slot_released idx (pool_after 4096))"
  by (simp add: pool_full_def released_unused_words not_mask_eq_0_iff)

lemma allocate_in_full:
  assumes "ctz (unmaxed_pools (st ! i)) = Some k" and "pool_full (pools (st ! i) ! k)"
  shows "allocate_in L st i = Inl (Ctz_of_zero, st)"
  using assms by (simp add: allocate_in_def pool_allocate_full)

lemma mp_allocate_single:
  "unmaxed_pools blk \<noteq> 0 \<Longrightarrow> mp_allocate L False n m [blk] = allocate_in L [blk] 0"
  by (simp add: mp_allocate_def)

lemma block_after_pools_0:
  "pools (block_after a n) ! 0 = pool_after n"
  by (simp add: block_after_def pools_in_block_def)

lemma released_block_facts:
  "ptr (block_released i idx blk) = ptr blk"
  "unmaxed_pools (block_released i idx blk) = set_bit_w (unmaxed_pools blk) i"
  "i < length (pools blk) \<Longrightarrow> pools (block_released i idx blk) ! i = slot_released idx (pools blk ! i)"
  by (simp_all add: block_released_def)

lemma ctz_set_bit_0: "ctz (set_bit_w w 0) = Some 0" for w :: "64 word"
  by (rule ctz_SomeI) (simp_all add: bit_set_bit_w)

lemma allocate_after_release_faults:
  assumes "idx < 4096"
  shows "mp_allocate L False n m [block_released 0 idx (block_after a 4096)] =
     Inl (Ctz_of_zero, [block_released 0 idx (block_after a 4096)])"
proof -
  let ?b = "block_released 0 idx (block_after a 4096)"
  have c: "ctz (unmaxed_pools ([?b] ! 0)) = Some 0"
    by (simp add: released_block_facts ctz_set_bit_0)
  then have nz: "unmaxed_pools ?b \<noteq> 0"
    by (auto simp add: ctz_eq_None_iff [symmetric])
  have len: "0 < length (pools (block_after a 4096))"
    by (simp add: block_after_def pools_in_block_def)
  have f: "pool_full (pools ([?b] ! 0) ! 0)"
    using assms by (simp add: released_block_facts(3) [OF len] block_after_pools_0 released_pool_still_full)
  show ?thesis
    unfolding mp_allocate_single [OF nz] by (rule allocate_in_full [OF c f])
qed

lemma allocate_in_returns:
  assumes "ctz (unmaxed_pools (st ! i)) = Some k"
    and "pool_allocate (sizeof_T L) (data_addr L (ptr (st ! i)) k) (pools (st ! i) ! k) = Inr (a, pl)"
  shows "\<exists>st'. allocate_in L st i = Inr (a, st')"
  using assms by (simp add: allocate_in_def Let_def)

lemma pool_allocate_after_release_63:
  "\<exists>pl. pool_allocate tsz d (slot_released 63 (pool_after 64) :: (64 word) pool_t) =
          Inr (elem_addr tsz d 64, pl)"
proof -
  let ?P = "slot_released 63 (pool_after 64) :: (64 word) pool_t"
  have u: "unused_words ?P = NOT (mask 1)"
    using released_unused_words [of 63 64] by simp
  have c1: "ctz (unused_words ?P) = Some 1"
    unfolding u by (rule ctz_not_mask) simp
  have s1: "unallocated_slots ?P ! 1 = NOT (mask 0)"
    by (simp add: slot_released_def Let_def pool_after_def)
  have c2: "ctz (unallocated_slots ?P ! 1) = Some 0"
    unfolding s1 by (rule ctz_not_mask) simp
  show ?thesis
    using pool_allocate_eq [OF c1 c2, of tsz d] by simp
qed

lemma example_layout_ok: "layout_ok \<lparr>sizeof_T = 8, data_offset = 520, sizeof_pool = 33288\<rparr>"
  by (simp add: layout_ok_def)

lemma example_single_disjoint:
  "disjoint_blocks \<lparr>sizeof_T = 8, data_offset = 520, sizeof_pool = 33288\<rparr> [block_after 65536 n]"
  by (simp add: disjoint_blocks_def block_after_def)

lemma example_release:
  assumes "i < 64" and "idx < 4096"
  shows "mp_deallocate \<lparr>sizeof_T = 8, data_offset = 520, sizeof_pool = 33288\<rparr> False
           (slot_addr \<lparr>sizeof_T = 8, data_offset = 520, sizeof_pool = 33288\<rparr> 65536 i idx) 1
           [block_after 65536 n] =
         Inr [block_released i idx (block_after 65536 n)]"
proof -
  have j: "0 < length [block_after 65536 n]" by simp
  from mp_deallocate_live [OF example_layout_ok example_single_disjoint j assms, of False 1]
  show ?thesis by (simp add: block_after_def)
qed

lemma example_construct:
  "multi_pool 65536 = Inr (state_after (\<lambda>j. 65536 + j * 4194304) 0)"
  by (simp add: multi_pool_state state_after_0)

lemma example_allocate_n:
  assumes "k \<le> 262144"
  shows "mp_allocate_n L False (\<lambda>j. 65536 + j * 4194304) k
           (state_after (\<lambda>j. 65536 + j * 4194304) 0) =
         Inr (map (nth_slot L (\<lambda>j. 65536 + j * 4194304)) [0..<k], [block_after 65536 k])"
proof -
  have "(k - 1) div 262144 = 0" using assms by simp
  then have b: "blocks_needed (0 + k) = 1" by (simp add: blocks_needed_def)
  have "mp_allocate_n L False (\<lambda>j. 65536 + j * 4194304) k
           (state_after (\<lambda>j. 65536 + j * 4194304) 0) =
         Inr (map (nth_slot L (\<lambda>j. 65536 + j * 4194304)) [0..<0 + k],
              state_after (\<lambda>j. 65536 + j * 4194304) (0 + k))"
    by (rule mp_allocate_n_after) (simp add: b)
  then show ?thesis using assms by (simp add: state_after_single)
qed

lemma example_allocate:
  assumes "k < 262144"
  shows "mp_allocate L False 1 m [block_after 65536 k] =
         Inr (slot_addr L 65536 (k div 4096) (k mod 4096), [block_after 65536 (Suc k)])"
proof -
  have nz: "unmaxed_pools (block_after 65536 k) \<noteq> 0"
    using assms by (simp add: unmaxed_after_0_iff)
  have i: "0 < length [block_after 65536 k]" by simp
  have b: "[block_after 65536 k] ! 0 = block_after 65536 k" by simp
  have n: "k < 64 * 4096" using assms by simp
  show ?thesis
    unfolding mp_allocate_single [OF nz] allocate_in_after [OF i b n] by simp
qed

text \<open>
  C3, at the input where it fails.  A multi-pool is constructed, 4096 slots are allocated
  (pool 0 of the first block is full and bit 0 of \<^verbatim>\<open>unmaxed_pools\<close> is clear), and the first
  of the returned pointers is deallocated.  Then bit 0 of \<^verbatim>\<open>unmaxed_pools\<close> is set although
  pool 0 is still full, and the next \<^verbatim>\<open>allocate(1)\<close> scans a zero word.
\<close>

theorem unmaxed_bit_set_for_full_pool:
  "(case multi_pool 65536 of
      Inl e \<Rightarrow> False
    | Inr st0 \<Rightarrow>
       (case mp_allocate_n \<lparr>sizeof_T = 8, data_offset = 520, sizeof_pool = 33288\<rparr> False
               (\<lambda>j. 65536 + j * 4194304) 4096 st0 of
          Inl e \<Rightarrow> False
        | Inr (ps, st) \<Rightarrow>
           (case mp_deallocate \<lparr>sizeof_T = 8, data_offset = 520, sizeof_pool = 33288\<rparr> False
                   (hd ps) 1 st of
              Inl e \<Rightarrow> False
            | Inr st' \<Rightarrow>
                bit (unmaxed_pools (st' ! 0)) 0 \<and> pool_full (pools (st' ! 0) ! 0) \<and>
                mp_allocate \<lparr>sizeof_T = 8, data_offset = 520, sizeof_pool = 33288\<rparr> False 1 0 st' =
                  Inl (Ctz_of_zero, st'))))"
proof -
  let ?L = "\<lparr>sizeof_T = 8, data_offset = 520, sizeof_pool = 33288\<rparr>"
  let ?mem = "\<lambda>j::nat. 65536 + j * 4194304 :: nat"
  have n: "mp_allocate_n ?L False ?mem 4096 (state_after ?mem 0) =
      Inr (map (nth_slot ?L ?mem) [0..<4096], [block_after 65536 4096])"
    by (rule example_allocate_n) simp
  have h: "hd (map (nth_slot ?L ?mem) [0..<4096]) = slot_addr ?L 65536 0 0"
    by (simp add: hd_map nth_slot_def)
  have d: "mp_deallocate ?L False (slot_addr ?L 65536 0 0) 1 [block_after 65536 4096] =
      Inr [block_released 0 0 (block_after 65536 4096)]"
    by (rule example_release) simp_all
  have len: "0 < length (pools (block_after 65536 4096))"
    by (simp add: block_after_def pools_in_block_def)
  have b: "bit (unmaxed_pools (block_released 0 0 (block_after 65536 4096))) 0"
    by (simp add: released_block_facts bit_set_bit_w)
  have f: "pool_full (pools (block_released 0 0 (block_after 65536 4096)) ! 0)"
    by (simp add: released_block_facts(3) [OF len] block_after_pools_0 released_pool_still_full)
  have a: "mp_allocate ?L False 1 0 [block_released 0 0 (block_after 65536 4096)] =
      Inl (Ctz_of_zero, [block_released 0 0 (block_after 65536 4096)])"
    by (rule allocate_after_release_faults) simp
  show ?thesis
    by (simp only: example_construct n h d sum.case prod.case nth_Cons_0 b f a simp_thms)
qed

text \<open>
  C6, at two inputs where it fails.  First: after 63 allocations \<^verbatim>\<open>allocate(1)\<close> returns the
  pointer \<open>p1\<close> to slot 63, the last slot of word 0; \<open>p1\<close> is deallocated; the next
  \<^verbatim>\<open>allocate(1)\<close> returns the pointer to slot 64, not \<open>p1\<close>.  Second: after 4095 allocations
  \<^verbatim>\<open>allocate(1)\<close> returns the pointer \<open>p1\<close> to slot 4095, the last slot of pool 0; \<open>p1\<close> is
  deallocated; the next \<^verbatim>\<open>allocate(1)\<close> returns no pointer at all, it scans a zero word.
\<close>

theorem freed_slot_not_reused:
  "(case multi_pool 65536 of
      Inl e \<Rightarrow> False
    | Inr st0 \<Rightarrow>
       (case mp_allocate_n \<lparr>sizeof_T = 8, data_offset = 520, sizeof_pool = 33288\<rparr> False
               (\<lambda>j. 65536 + j * 4194304) 63 st0 of
          Inl e \<Rightarrow> False
        | Inr (ps, st) \<Rightarrow>
           (case mp_allocate \<lparr>sizeof_T = 8, data_offset = 520, sizeof_pool = 33288\<rparr> False 1 0 st of
              Inl e \<Rightarrow> False
            | Inr (p1, st1) \<Rightarrow>
               (case mp_deallocate \<lparr>sizeof_T = 8, data_offset = 520, sizeof_pool = 33288\<rparr> False
                       p1 1 st1 of
                  Inl e \<Rightarrow> False
                | Inr st2 \<Rightarrow>
                   (case mp_allocate \<lparr>sizeof_T = 8, data_offset = 520, sizeof_pool = 33288\<rparr>
                           False 1 0 st2 of
                      Inl e \<Rightarrow> False
                    | Inr (p2, st3) \<Rightarrow>
                        p1 = 65536 + 520 + 63 * 8 \<and> p2 = 65536 + 520 + 64 * 8 \<and> p2 \<noteq> p1))))) \<and>
   (case multi_pool 65536 of
      Inl e \<Rightarrow> False
    | Inr st0 \<Rightarrow>
       (case mp_allocate_n \<lparr>sizeof_T = 8, data_offset = 520, sizeof_pool = 33288\<rparr> False
               (\<lambda>j. 65536 + j * 4194304) 4095 st0 of
          Inl e \<Rightarrow> False
        | Inr (ps, st) \<Rightarrow>
           (case mp_allocate \<lparr>sizeof_T = 8, data_offset = 520, sizeof_pool = 33288\<rparr> False 1 0 st of
              Inl e \<Rightarrow> False
            | Inr (p1, st1) \<Rightarrow>
               (case mp_deallocate \<lparr>sizeof_T = 8, data_offset = 520, sizeof_pool = 33288\<rparr> False
                       p1 1 st1 of
                  Inl e \<Rightarrow> False
                | Inr st2 \<Rightarrow>
                    p1 = 65536 + 520 + 4095 * 8 \<and>
                    mp_allocate \<lparr>sizeof_T = 8, data_offset = 520, sizeof_pool = 33288\<rparr>
                      False 1 0 st2 = Inl (Ctz_of_zero, st2)))))"
proof -
  let ?L = "\<lparr>sizeof_T = 8, data_offset = 520, sizeof_pool = 33288\<rparr>"
  let ?mem = "\<lambda>j::nat. 65536 + j * 4194304 :: nat"
  have n1: "mp_allocate_n ?L False ?mem 63 (state_after ?mem 0) =
      Inr (map (nth_slot ?L ?mem) [0..<63], [block_after 65536 63])"
    by (rule example_allocate_n) simp
  have a1: "mp_allocate ?L False 1 0 [block_after 65536 63] =
      Inr (slot_addr ?L 65536 0 63, [block_after 65536 64])"
    using example_allocate [of 63 ?L 0] by simp
  have d1: "mp_deallocate ?L False (slot_addr ?L 65536 0 63) 1 [block_after 65536 64] =
      Inr [block_released 0 63 (block_after 65536 64)]"
    by (rule example_release) simp_all
  let ?B = "block_released 0 63 (block_after 65536 64)"
  have c: "ctz (unmaxed_pools ([?B] ! 0)) = Some 0"
    by (simp add: released_block_facts ctz_set_bit_0)
  then have nz: "unmaxed_pools ?B \<noteq> 0"
    by (auto simp add: ctz_eq_None_iff [symmetric])
  have len: "0 < length (pools (block_after 65536 64))"
    by (simp add: block_after_def pools_in_block_def)
  have p0: "pools ([?B] ! 0) ! 0 = slot_released 63 (pool_after 64)"
    by (simp add: released_block_facts(3) [OF len] block_after_pools_0)
  obtain pl where pa: "pool_allocate (sizeof_T ?L) (data_addr ?L (ptr ([?B] ! 0)) 0)
      (pools ([?B] ! 0) ! 0) = Inr (elem_addr (sizeof_T ?L) (data_addr ?L (ptr ([?B] ! 0)) 0) 64, pl)"
    unfolding p0 using pool_allocate_after_release_63 by blast
  have pt: "ptr ([?B] ! 0) = 65536"
    by (simp add: released_block_facts block_after_def)
  from allocate_in_returns [OF c pa] obtain st3 where
    ai: "allocate_in ?L [?B] 0 = Inr (elem_addr (sizeof_T ?L) (data_addr ?L 65536 0) 64, st3)"
    unfolding pt by blast
  have a2: "mp_allocate ?L False 1 0 [?B] = Inr (slot_addr ?L 65536 0 64, st3)"
    unfolding mp_allocate_single [OF nz] slot_addr_def by (rule ai)
  have v: "slot_addr ?L 65536 0 63 = 65536 + 520 + 63 * 8" "slot_addr ?L 65536 0 64 = 65536 + 520 + 64 * 8"
    "slot_addr ?L 65536 0 4095 = 65536 + 520 + 4095 * 8"
    by (simp_all add: slot_addr_def elem_addr_def data_addr_def pool_addr_def)
  have first: "(case multi_pool 65536 of
      Inl e \<Rightarrow> False
    | Inr st0 \<Rightarrow>
       (case mp_allocate_n ?L False ?mem 63 st0 of
          Inl e \<Rightarrow> False
        | Inr (ps, st) \<Rightarrow>
           (case mp_allocate ?L False 1 0 st of
              Inl e \<Rightarrow> False
            | Inr (p1, st1) \<Rightarrow>
               (case mp_deallocate ?L False p1 1 st1 of
                  Inl e \<Rightarrow> False
                | Inr st2 \<Rightarrow>
                   (case mp_allocate ?L False 1 0 st2 of
                      Inl e \<Rightarrow> False
                    | Inr (p2, st3) \<Rightarrow>
                        p1 = 65536 + 520 + 63 * 8 \<and> p2 = 65536 + 520 + 64 * 8 \<and> p2 \<noteq> p1)))))"
    by (simp only: example_construct n1 a1 d1 a2 sum.case prod.case) (simp add: v)
  have n2: "mp_allocate_n ?L False ?mem 4095 (state_after ?mem 0) =
      Inr (map (nth_slot ?L ?mem) [0..<4095], [block_after 65536 4095])"
    by (rule example_allocate_n) simp
  have a3: "mp_allocate ?L False 1 0 [block_after 65536 4095] =
      Inr (slot_addr ?L 65536 0 4095, [block_after 65536 4096])"
    using example_allocate [of 4095 ?L 0] by simp
  have d2: "mp_deallocate ?L False (slot_addr ?L 65536 0 4095) 1 [block_after 65536 4096] =
      Inr [block_released 0 4095 (block_after 65536 4096)]"
    by (rule example_release) simp_all
  have a4: "mp_allocate ?L False 1 0 [block_released 0 4095 (block_after 65536 4096)] =
      Inl (Ctz_of_zero, [block_released 0 4095 (block_after 65536 4096)])"
    by (rule allocate_after_release_faults) simp
  have second: "(case multi_pool 65536 of
      Inl e \<Rightarrow> False
    | Inr st0 \<Rightarrow>
       (case mp_allocate_n ?L False ?mem 4095 st0 of
          Inl e \<Rightarrow> False
        | Inr (ps, st) \<Rightarrow>
           (case mp_allocate ?L False 1 0 st of
              Inl e \<Rightarrow> False
            | Inr (p1, st1) \<Rightarrow>
               (case mp_deallocate ?L False p1 1 st1 of
                  Inl e \<Rightarrow> False
                | Inr st2 \<Rightarrow>
                    p1 = 65536 + 520 + 4095 * 8 \<and>
                    mp_allocate ?L False 1 0 st2 = Inl (Ctz_of_zero, st2)))))"
    by (simp only: example_construct n2 a3 d2 a4 sum.case prod.case) (simp add: v)
  from first second show ?thesis by (rule conjI)
qed

section \<open>Deallocation preserves the properties of a block\<close>

lemma pool_wf_released: "pool_wf pl \<Longrightarrow> pool_wf (slot_released idx pl)"
  by (simp add: pool_wf_def slot_released_def Let_def)

lemma slots_released_nth:
  assumes "pool_wf pl" and "k < 64"
  shows "unallocated_slots (slot_released idx pl) ! k =
     (if k = idx div 64 then set_bit_w (unallocated_slots pl ! k) (idx mod 64)
      else unallocated_slots pl ! k)"
  using assms by (simp add: pool_wf_def slot_released_def Let_def nth_list_update)

lemma unused_words_released_mono:
  "bit (unused_words pl) k \<Longrightarrow> bit (unused_words (slot_released idx pl)) k"
  by (simp add: slot_released_def Let_def bit_set_bit_w)

lemma pool_J_released:
  assumes wf: "pool_wf pl" and J: "pool_J pl" and idx: "idx < 4096"
  shows "pool_J (slot_released idx pl)"
  unfolding pool_J_def
proof (intro allI impI)
  fix k assume k: "k < (64::nat)"
    and ones: "unallocated_slots (slot_released idx pl) ! k = NOT 0"
  show "bit (unused_words (slot_released idx pl)) k"
  proof (cases "k = idx div 64")
    case True
    from ones have "set_bit_w (unallocated_slots pl ! (idx div 64)) (idx mod 64) = NOT 0"
      using slots_released_nth [OF wf k, of idx] True by simp
    then show ?thesis using True k
      by (simp add: slot_released_def Let_def bit_set_bit_w)
  next
    case False
    with ones have "unallocated_slots pl ! k = NOT 0"
      using slots_released_nth [OF wf k, of idx] by simp
    with J k have "bit (unused_words pl) k" by (simp add: pool_J_def)
    then show ?thesis by (rule unused_words_released_mono)
  qed
qed

lemma block_wf_released: "block_wf blk \<Longrightarrow> i < 64 \<Longrightarrow> block_wf (block_released i idx blk)"
  by (auto simp add: block_wf_def block_released_def pools_in_block_def nth_list_update
      pool_wf_released)

lemma pools_released_nth:
  assumes "block_wf blk" and "i' < 64"
  shows "pools (block_released i idx blk) ! i' =
     (if i' = i then slot_released idx (pools blk ! i') else pools blk ! i')"
  using assms by (simp add: block_wf_def block_released_def pools_in_block_def nth_list_update)

lemma block_inv_released:
  assumes inv: "block_inv blk" and i: "i < 64" and idx: "idx < 4096"
  shows "block_inv (block_released i idx blk)"
proof -
  from inv have wf: "block_wf blk" and J: "\<forall>i<64. pool_J (pools blk ! i)" and K: "block_K blk"
    by (simp_all add: block_inv_def)
  have wfi: "pool_wf (pools blk ! i')" if "i' < 64" for i'
    using wf that by (simp add: block_wf_def pools_in_block_def)
  have J': "pool_J (pools (block_released i idx blk) ! i')" if "i' < 64" for i'
  proof (cases "i' = i")
    case True
    have "pool_J (pools blk ! i)" using J i by simp
    then have "pool_J (slot_released idx (pools blk ! i))"
      by (rule pool_J_released [OF wfi [OF i] _ idx])
    then show ?thesis using pools_released_nth [OF wf i, of i idx] by (simp add: True)
  next
    case False
    then show ?thesis using J that by (simp add: pools_released_nth [OF wf that])
  qed
  have K': "block_K (block_released i idx blk)"
    unfolding block_K_def
  proof (intro allI impI)
    fix i' assume i': "i' < (64::nat)"
      and ones: "\<forall>k<64. unallocated_slots (pools (block_released i idx blk) ! i') ! k = NOT 0"
    show "bit (unmaxed_pools (block_released i idx blk)) i'"
    proof (cases "i' = i")
      case True
      then show ?thesis using i by (simp add: block_released_def bit_set_bit_w)
    next
      case False
      with ones have "\<forall>k<64. unallocated_slots (pools blk ! i') ! k = NOT 0"
        by (simp add: pools_released_nth [OF wf i'])
      with K i' have "bit (unmaxed_pools blk) i'" by (simp add: block_K_def)
      then show ?thesis by (simp add: block_released_def bit_set_bit_w)
    qed
  qed
  show ?thesis
    using block_wf_released [OF wf i] J' K' by (simp add: block_inv_def)
qed

lemma slot_free_released:
  assumes wf: "block_wf blk" and i: "i < 64" and idx: "idx < 4096"
    and i': "i' < 64" and idx': "idx' < 4096"
  shows "slot_free (block_released i idx blk) i' idx' \<longleftrightarrow>
         slot_free blk i' idx' \<or> (i' = i \<and> idx' = idx)"
proof -
  have wfi: "pool_wf (pools blk ! i')"
    using wf i' by (simp add: block_wf_def pools_in_block_def)
  have k: "idx' div 64 < 64" using idx' by simp
  have e: "idx' div 64 = idx div 64 \<and> idx' mod 64 = idx mod 64 \<longleftrightarrow> idx' = idx"
    by (metis div_mult_mod_eq)
  show ?thesis
  proof (cases "i' = i")
    case True
    have P: "pools (block_released i idx blk) ! i = slot_released idx (pools blk ! i)"
      using pools_released_nth [OF wf i, of i idx] by simp
    have wfp: "pool_wf (pools blk ! i)" using wfi True by simp
    have S: "unallocated_slots (slot_released idx (pools blk ! i)) ! (idx' div 64) =
        (if idx' div 64 = idx div 64
         then set_bit_w (unallocated_slots (pools blk ! i) ! (idx' div 64)) (idx mod 64)
         else unallocated_slots (pools blk ! i) ! (idx' div 64))"
      by (rule slots_released_nth [OF wfp k])
    have m: "idx' mod 64 < 64" by simp
    show ?thesis
      unfolding slot_free_def True P S using e m by (auto simp add: bit_set_bit_w)
  next
    case False
    then show ?thesis
      by (simp add: slot_free_def pools_released_nth [OF wf i'])
  qed
qed

section \<open>The states after consecutive allocations have the properties\<close>

lemma not_mask_ones_iff: "(NOT (mask x) :: 64 word) = NOT 0 \<longleftrightarrow> x = 0"
proof
  assume "(NOT (mask x) :: 64 word) = NOT 0"
  then have "bit (NOT (mask x) :: 64 word) 0" by (simp add: bit_simps)
  then show "x = 0" by (simp add: bit_not_mask_word)
qed simp

lemma not_mask_minus_1_iff: "(NOT (mask x) :: 64 word) = - 1 \<longleftrightarrow> x = 0"
  using not_mask_ones_iff [of x] by simp

lemma pool_J_after: "pool_J (pool_after m)"
  unfolding pool_J_def
proof (intro allI impI)
  fix k assume k: "k < (64::nat)"
    and "unallocated_slots (pool_after m :: (64 word) pool_t) ! k = NOT 0"
  then have "m - k * 64 = 0" by (simp add: pool_after_def not_mask_minus_1_iff)
  then have "m \<le> k * 64" by simp
  then have "m div 64 \<le> k * 64 div 64" by (rule div_le_mono)
  then have "m div 64 \<le> k" by simp
  then show "bit (unused_words (pool_after m :: (64 word) pool_t)) k"
    using k by (simp add: pool_after_def bit_not_mask_word)
qed

lemma block_wf_after: "block_wf (block_after a n)"
  by (simp add: block_wf_def block_after_def pools_in_block_def pool_wf_after)

lemma block_K_after: "block_K (block_after a n)"
  unfolding block_K_def
proof (intro allI impI)
  fix i assume i: "i < (64::nat)"
    and "\<forall>k<64. unallocated_slots (pools (block_after a n) ! i) ! k = NOT 0"
  then have "unallocated_slots (pools (block_after a n) ! i) ! 0 = NOT 0" by simp
  then have "n - i * 4096 = 0"
    using i by (simp add: block_after_def pools_in_block_def pool_after_def not_mask_minus_1_iff)
  then have "n \<le> i * 4096" by simp
  then have "n div 4096 \<le> i * 4096 div 4096" by (rule div_le_mono)
  then have "n div 4096 \<le> i" by simp
  then show "bit (unmaxed_pools (block_after a n)) i"
    using i by (simp add: block_after_def bit_not_mask_word)
qed

lemma block_inv_after: "block_inv (block_after a n)"
proof -
  have "pool_J (pools (block_after a n) ! i)" if "i < 64" for i
    using that by (simp add: block_after_def pools_in_block_def pool_J_after)
  then show ?thesis
    using block_wf_after [of a n] block_K_after [of a n] by (simp add: block_inv_def)
qed

lemma slot_free_after:
  assumes "i < 64" and "idx < 4096"
  shows "slot_free (block_after a n) i idx \<longleftrightarrow> n \<le> i * 4096 + idx"
proof -
  have k: "idx div 64 < 64" using assms(2) by simp
  have e: "idx div 64 * 64 + idx mod 64 = idx" by simp
  have "slot_free (block_after a n) i idx \<longleftrightarrow>
      n - i * 4096 - idx div 64 * 64 \<le> idx mod 64"
    using assms(1) k
    by (simp add: slot_free_def block_after_def pools_in_block_def pool_after_def
        bit_not_mask_word)
  also have "\<dots> \<longleftrightarrow> n \<le> i * 4096 + (idx div 64 * 64 + idx mod 64)" by linarith
  finally show ?thesis by (simp only: e)
qed

lemma all_free_pool:
  assumes wf: "pool_wf pl" and J: "pool_J pl"
    and free: "\<forall>k<64. \<forall>t<64. bit (unallocated_slots pl ! k) t"
  shows "pl = pool_init"
proof -
  have w: "unallocated_slots pl ! k = NOT 0" if "k < 64" for k
    using free that by (intro bit_word_eqI) (simp add: bit_simps)
  have s: "unallocated_slots pl = replicate 64 (NOT 0)"
    using wf w by (intro nth_equalityI) (simp_all add: pool_wf_def)
  have "bit (unused_words pl) k" if "k < 64" for k
    using J w that by (simp add: pool_J_def)
  then have u: "unused_words pl = NOT 0"
    by (intro bit_word_eqI) (simp add: bit_simps)
  show ?thesis
    by (rule pool_t.equality) (simp_all add: pool_init_def s u)
qed

lemma all_free_block:
  assumes inv: "block_inv blk"
    and free: "\<forall>i<64. \<forall>idx<4096. slot_free blk i idx"
  shows "blk = fresh_block (ptr blk)"
proof -
  from inv have wf: "block_wf blk" and J: "\<forall>i<64. pool_J (pools blk ! i)" and K: "block_K blk"
    by (simp_all add: block_inv_def)
  have p: "pools blk ! i = pool_init" if i: "i < 64" for i
  proof (rule all_free_pool)
    show "pool_wf (pools blk ! i)" using wf i by (simp add: block_wf_def pools_in_block_def)
    show "pool_J (pools blk ! i)" using J i by simp
    show "\<forall>k<64. \<forall>t<64. bit (unallocated_slots (pools blk ! i) ! k) t"
    proof (intro allI impI)
      fix k t :: nat assume k: "k < 64" and t: "t < 64"
      have "k * 64 + t < 4096" using k t by simp
      with free i have "slot_free blk i (k * 64 + t)" by blast
      then show "bit (unallocated_slots (pools blk ! i) ! k) t"
        using t by (simp add: slot_free_def div_add_lt)
    qed
  qed
  have ps: "pools blk = replicate 64 pool_init"
    using wf p by (intro nth_equalityI) (simp_all add: block_wf_def pools_in_block_def)
  have "bit (unmaxed_pools blk) i" if "i < 64" for i
    using K p that by (simp add: block_K_def pool_init_def)
  then have u: "unmaxed_pools blk = NOT 0"
    by (intro bit_word_eqI) (simp add: bit_simps)
  show ?thesis
    by (rule block_t.equality) (simp_all add: fresh_block_def ps u pools_in_block_def)
qed

section \<open>Deallocating a list of pointers\<close>

lemma disjoint_from_malloc:
  assumes "malloc_ok L mem (length st)" and "mp_inv mem st"
  shows "disjoint_blocks L st"
  using assms unfolding malloc_ok_def mp_inv_def disjoint_blocks_def
  by (metis less_trans)

lemma deallocate_step:
  assumes ok: "layout_ok L" and m: "malloc_ok L mem (length st)" and inv: "mp_inv mem st"
    and j: "j < length st" and i: "i < 64" and idx: "idx < 4096"
  shows "mp_deallocate L dbg (slot_addr L (mem j) i idx) n st =
           Inr (st[j := block_released i idx (st ! j)])"
    and "mp_inv mem (st[j := block_released i idx (st ! j)])"
    and "slot_free (st[j := block_released i idx (st ! j)] ! j) i idx"
    and "\<And>j' i' idx'. j' < length st \<Longrightarrow> i' < 64 \<Longrightarrow> idx' < 4096 \<Longrightarrow>
           slot_free (st ! j') i' idx' \<Longrightarrow>
           slot_free (st[j := block_released i idx (st ! j)] ! j') i' idx'"
proof -
  have dis: "disjoint_blocks L st" by (rule disjoint_from_malloc [OF m inv])
  have pj: "ptr (st ! j) = mem j" and bj: "block_inv (st ! j)"
    using inv j by (simp_all add: mp_inv_def)
  have wf: "block_wf (st ! j)" using bj by (simp add: block_inv_def)
  show "mp_deallocate L dbg (slot_addr L (mem j) i idx) n st =
           Inr (st[j := block_released i idx (st ! j)])"
    using mp_deallocate_live [OF ok dis j i idx, of dbg n] by (simp add: pj)
  show "mp_inv mem (st[j := block_released i idx (st ! j)])"
    unfolding mp_inv_def
  proof (intro allI impI)
    fix j' assume "j' < length (st[j := block_released i idx (st ! j)])"
    then have j': "j' < length st" by simp
    show "ptr (st[j := block_released i idx (st ! j)] ! j') = mem j' \<and>
        block_inv (st[j := block_released i idx (st ! j)] ! j')"
    proof (cases "j' = j")
      case True
      then show ?thesis
        using j pj block_inv_released [OF bj i idx] by (simp add: released_block_facts)
    next
      case False
      then show ?thesis using inv j' by (simp add: mp_inv_def)
    qed
  qed
  show "slot_free (st[j := block_released i idx (st ! j)] ! j) i idx"
    using j slot_free_released [OF wf i idx i idx] by simp
  show "slot_free (st[j := block_released i idx (st ! j)] ! j') i' idx'"
    if "j' < length st" "i' < 64" "idx' < 4096" "slot_free (st ! j') i' idx'" for j' i' idx'
  proof (cases "j' = j")
    case True
    then show ?thesis
      using j that slot_free_released [OF wf i idx that(2,3)] by simp
  next
    case False
    then show ?thesis using that by simp
  qed
qed

lemma deallocate_all_frees:
  assumes ok: "layout_ok L"
  shows "malloc_ok L mem (length st) \<Longrightarrow> mp_inv mem st \<Longrightarrow>
    \<forall>q\<in>set qs. \<exists>j i idx. j < length st \<and> i < 64 \<and> idx < 4096 \<and> q = slot_addr L (mem j) i idx \<Longrightarrow>
    \<exists>st'. mp_deallocate_all L dbg qs st = Inr st' \<and> length st' = length st \<and> mp_inv mem st' \<and>
      (\<forall>j i idx. j < length st \<and> i < 64 \<and> idx < 4096 \<and>
         (slot_free (st ! j) i idx \<or> slot_addr L (mem j) i idx \<in> set qs) \<longrightarrow>
         slot_free (st' ! j) i idx)"
proof (induction qs arbitrary: st)
  case Nil
  then show ?case by simp
next
  case (Cons q qs)
  from Cons.prems(3) obtain j i idx where
    t: "j < length st" "i < 64" "idx < 4096" and q: "q = slot_addr L (mem j) i idx"
    by auto
  let ?st1 = "st[j := block_released i idx (st ! j)]"
  note step = deallocate_step [OF ok Cons.prems(1,2) t]
  have d: "mp_deallocate L dbg q 1 st = Inr ?st1"
    unfolding q by (rule step(1))
  have len1: "length ?st1 = length st" by simp
  have m1: "malloc_ok L mem (length ?st1)" using Cons.prems(1) by simp
  have c1: "\<forall>q\<in>set qs. \<exists>j i idx. j < length ?st1 \<and> i < 64 \<and> idx < 4096 \<and>
      q = slot_addr L (mem j) i idx"
    using Cons.prems(3) by simp
  from Cons.IH [OF m1 step(2) c1] obtain st' where
    r: "mp_deallocate_all L dbg qs ?st1 = Inr st'" "length st' = length ?st1" "mp_inv mem st'"
    and fr: "\<forall>j i idx. j < length ?st1 \<and> i < 64 \<and> idx < 4096 \<and>
         (slot_free (?st1 ! j) i idx \<or> slot_addr L (mem j) i idx \<in> set qs) \<longrightarrow>
         slot_free (st' ! j) i idx"
    by blast
  have "slot_free (st' ! j') i' idx'"
    if v: "j' < length st" "i' < 64" "idx' < 4096"
      and h: "slot_free (st ! j') i' idx' \<or> slot_addr L (mem j') i' idx' \<in> set (q # qs)"
    for j' i' idx'
  proof -
    have "slot_free (?st1 ! j') i' idx' \<or> slot_addr L (mem j') i' idx' \<in> set qs"
    proof (cases "slot_free (st ! j') i' idx'")
      case True
      then show ?thesis using step(4) [OF v] by simp
    next
      case False
      with h have "slot_addr L (mem j') i' idx' = q \<or> slot_addr L (mem j') i' idx' \<in> set qs"
        by auto
      then show ?thesis
      proof
        assume e: "slot_addr L (mem j') i' idx' = q"
        note step' = deallocate_step [OF ok Cons.prems(1,2) v]
        have "mp_deallocate L dbg q 1 st = Inr (st[j' := block_released i' idx' (st ! j')])"
          unfolding e [symmetric] by (rule step'(1))
        with d have "?st1 = st[j' := block_released i' idx' (st ! j')]" by simp
        then show ?thesis using step'(3) by simp
      qed simp
    qed
    with fr v show ?thesis by simp
  qed
  with r d show ?case by simp
qed

lemma ptr_block_after: "ptr (block_after a n) = a"
  by (simp add: block_after_def)

lemma mp_inv_state_after: "mp_inv mem (state_after mem k)"
  by (simp add: mp_inv_def length_state_after nth_state_after block_inv_after ptr_block_after)

lemma nth_slot_triple:
  assumes "i < 64" and "idx < 4096"
  shows "nth_slot L mem (j * 262144 + (i * 4096 + idx)) = slot_addr L (mem j) i idx"
proof -
  have r: "i * 4096 + idx < 262144" using assms by simp
  have a: "(j * 262144 + (i * 4096 + idx)) div 262144 = j"
    using r by (rule div_add_lt)
  have b: "(j * 262144 + (i * 4096 + idx)) mod 262144 = i * 4096 + idx"
    using r by simp
  have c: "(i * 4096 + idx) div 4096 = i" using assms(2) by (rule div_add_lt)
  have e: "j * 262144 + (i * 4096 + idx) = (j * 64 + i) * 4096 + idx"
    by (simp add: algebra_simps)
  have "((j * 64 + i) * 4096 + idx) mod 4096 = idx mod 4096"
    by (rule mod_mult_self3)
  also have "\<dots> = idx" using assms(2) by (rule mod_less)
  finally have d: "(j * 262144 + (i * 4096 + idx)) mod 4096 = idx"
    by (simp only: e)
  show ?thesis by (simp only: nth_slot_def a b c d)
qed

lemma nth_slot_is_slot:
  assumes "n < k"
  shows "\<exists>j i idx. j < blocks_needed k \<and> i < 64 \<and> idx < 4096 \<and>
           nth_slot L mem n = slot_addr L (mem j) i idx"
proof -
  have "n div 262144 \<le> (k - 1) div 262144"
    using assms by (intro div_le_mono) simp
  then have "n div 262144 < blocks_needed k" by (simp add: blocks_needed_def)
  moreover have "n mod 262144 div 4096 < 64" by (simp add: less_mult_imp_div_less)
  moreover have "n mod 4096 < 4096" by simp
  ultimately show ?thesis unfolding nth_slot_def by blast
qed

lemma released_everything:
  assumes ok: "layout_ok L" and m: "malloc_ok L mem (blocks_needed k)"
    and qs: "set qs = set (map (nth_slot L mem) [0..<k])"
  shows "mp_deallocate_all L dbg qs (state_after mem k) =
           Inr (map (\<lambda>j. fresh_block (mem j)) [0..<blocks_needed k])"
proof -
  let ?st = "state_after mem k"
  have len: "length ?st = blocks_needed k" by (rule length_state_after)
  have m': "malloc_ok L mem (length ?st)" using m by (simp only: len)
  have inv: "mp_inv mem ?st" by (rule mp_inv_state_after)
  have cond: "\<forall>q\<in>set qs. \<exists>j i idx. j < length ?st \<and> i < 64 \<and> idx < 4096 \<and>
      q = slot_addr L (mem j) i idx"
  proof
    fix q assume "q \<in> set qs"
    then obtain n where "n < k" "q = nth_slot L mem n" using qs by auto
    then show "\<exists>j i idx. j < length ?st \<and> i < 64 \<and> idx < 4096 \<and> q = slot_addr L (mem j) i idx"
      using nth_slot_is_slot [of n k L mem] by (simp only: len)
  qed
  from deallocate_all_frees [OF ok m' inv cond, of dbg] obtain st' where
    r: "mp_deallocate_all L dbg qs ?st = Inr st'" and l: "length st' = length ?st"
    and inv': "mp_inv mem st'"
    and fr: "\<forall>j i idx. j < length ?st \<and> i < 64 \<and> idx < 4096 \<and>
         (slot_free (?st ! j) i idx \<or> slot_addr L (mem j) i idx \<in> set qs) \<longrightarrow>
         slot_free (st' ! j) i idx"
    by blast
  have blk: "st' ! j = fresh_block (mem j)" if j: "j < blocks_needed k" for j
  proof -
    have "slot_free (st' ! j) i idx" if v: "i < 64" "idx < 4096" for i idx
    proof -
      have "slot_free (?st ! j) i idx \<or> slot_addr L (mem j) i idx \<in> set qs"
      proof (cases "k - j * 262144 \<le> i * 4096 + idx")
        case True
        then show ?thesis
          using j by (simp add: nth_state_after slot_free_after [OF v])
      next
        case False
        then have "j * 262144 + (i * 4096 + idx) < k" by simp
        then have "nth_slot L mem (j * 262144 + (i * 4096 + idx)) \<in> set qs"
          unfolding qs by simp
        then have "slot_addr L (mem j) i idx \<in> set qs" by (simp only: nth_slot_triple [OF v])
        then show ?thesis by (rule disjI2)
      qed
      with fr j v show ?thesis by (simp add: len)
    qed
    moreover have "block_inv (st' ! j)" "ptr (st' ! j) = mem j"
      using inv' j l by (simp_all add: mp_inv_def len)
    ultimately show ?thesis using all_free_block [of "st' ! j"] by simp
  qed
  have "st' = map (\<lambda>j. fresh_block (mem j)) [0..<blocks_needed k]"
    using l blk by (intro nth_equalityI) (simp_all add: len)
  with r show ?thesis by simp
qed

text \<open>
  C9. For every \<open>k\<close>, when \<^verbatim>\<open>malloc\<close> delivers the blocks that \<open>k\<close> allocations need: the
  construction of the multi-pool and \<open>k\<close> calls of \<^verbatim>\<open>allocate(1)\<close> succeed, and deallocating
  the \<open>k\<close> returned pointers, each once and in any order, leaves every block with all bits
  of \<^verbatim>\<open>unmaxed_pools\<close> set and every pool of it as \<^verbatim>\<open>init()\<close> leaves it.  As long as the
  allocations fit into one block (\<open>k \<le> 262144\<close>) this is the state after construction;
  beyond that the blocks added in between stay (the vector never shrinks).
\<close>

theorem allocate_then_deallocate_all:
  assumes "layout_ok L" and "malloc_ok L mem (blocks_needed k)"
  shows "\<exists>st0 ps st.
           multi_pool (mem 0) = Inr st0 \<and>
           mp_allocate_n L dbg mem k st0 = Inr (ps, st) \<and>
           ps = map (nth_slot L mem) [0..<k] \<and>
           (\<forall>qs. distinct qs \<and> set qs = set ps \<longrightarrow>
              mp_deallocate_all L dbg qs st =
                Inr (map (\<lambda>j. fresh_block (mem j)) [0..<blocks_needed k])) \<and>
           (k \<le> 262144 \<longrightarrow> map (\<lambda>j. fresh_block (mem j)) [0..<blocks_needed k] = st0)"
proof -
  have nz: "\<forall>j<blocks_needed (0 + k). mem j \<noteq> 0"
    using assms(2) by (simp add: malloc_ok_def)
  have "0 < blocks_needed k" by (simp add: blocks_needed_def)
  with nz have m0: "mem 0 \<noteq> 0" by simp
  have c: "multi_pool (mem 0) = Inr (state_after mem 0)"
    using m0 by (simp add: multi_pool_state state_after_0)
  have a: "mp_allocate_n L dbg mem k (state_after mem 0) =
      Inr (map (nth_slot L mem) [0..<0 + k], state_after mem (0 + k))"
    by (rule mp_allocate_n_after [OF nz])
  have d: "\<forall>qs. distinct qs \<and> set qs = set (map (nth_slot L mem) [0..<k]) \<longrightarrow>
      mp_deallocate_all L dbg qs (state_after mem k) =
        Inr (map (\<lambda>j. fresh_block (mem j)) [0..<blocks_needed k])"
    using released_everything [OF assms] by blast
  have e: "map (\<lambda>j. fresh_block (mem j)) [0..<blocks_needed k] = state_after mem 0"
    if "k \<le> 262144"
  proof -
    from that have "(k - 1) div 262144 = 0" by simp
    then show ?thesis by (simp add: blocks_needed_def state_after_0)
  qed
  show ?thesis
    apply (rule exI [of _ "state_after mem 0"])
    apply (rule exI [of _ "map (nth_slot L mem) [0..<k]"])
    apply (rule exI [of _ "state_after mem k"])
    using c a d e
    apply simp
    done
qed

theorem allocate_then_deallocate_all_witness:
  "\<exists>st0 ps st.
     multi_pool 65536 = Inr st0 \<and>
     mp_allocate_n \<lparr>sizeof_T = 8, data_offset = 520, sizeof_pool = 33288\<rparr> True
       (\<lambda>j. 65536 + j * 4194304) 3 st0 = Inr (ps, st) \<and>
     ps = [66056, 66064, 66072] \<and>
     mp_deallocate_all \<lparr>sizeof_T = 8, data_offset = 520, sizeof_pool = 33288\<rparr> True
       [66072, 66056, 66064] st = Inr [fresh_block 65536] \<and>
     [fresh_block 65536] = st0"
proof -
  let ?L = "\<lparr>sizeof_T = 8, data_offset = 520, sizeof_pool = 33288\<rparr>"
  let ?mem = "\<lambda>j::nat. 65536 + j * 4194304 :: nat"
  have bn: "blocks_needed 3 = 1" by (simp add: blocks_needed_def)
  have m: "malloc_ok ?L ?mem (blocks_needed 3)"
    by (simp add: bn malloc_ok_def)
  have u: "[0..<3] = [0, 1, 2::nat]" by (simp add: upt_rec)
  have ps: "map (nth_slot ?L ?mem) [0..<3] = [66056, 66064, 66072]"
    by (simp add: u nth_slot_def slot_addr_def elem_addr_def data_addr_def pool_addr_def)
  from allocate_then_deallocate_all [OF example_layout_ok m, of True]
  obtain st0 pl st where
    r: "multi_pool (?mem 0) = Inr st0"
      "mp_allocate_n ?L True ?mem 3 st0 = Inr (pl, st)"
      "pl = map (nth_slot ?L ?mem) [0..<3]"
    and d: "\<forall>qs. distinct qs \<and> set qs = set pl \<longrightarrow>
      mp_deallocate_all ?L True qs st = Inr (map (\<lambda>j. fresh_block (?mem j)) [0..<blocks_needed 3])"
    and e: "3 \<le> (262144::nat) \<longrightarrow> map (\<lambda>j. fresh_block (?mem j)) [0..<blocks_needed 3] = st0"
    by blast
  have pl: "pl = [66056, 66064, 66072]" using r(3) ps by simp
  have q: "distinct [66072, 66056, 66064 :: nat] \<and> set [66072, 66056, 66064 :: nat] = set pl"
    by (auto simp add: pl)
  from d q have dd: "mp_deallocate_all ?L True [66072, 66056, 66064] st =
      Inr (map (\<lambda>j. fresh_block (?mem j)) [0..<blocks_needed 3])"
    by blast
  have f: "map (\<lambda>j. fresh_block (?mem j)) [0..<blocks_needed 3] = [fresh_block 65536]"
    by (simp add: bn)
  from e have e': "[fresh_block 65536] = st0" by (simp add: f)
  show ?thesis
    using r(1,2) pl dd e' by (simp add: f)
qed



end
